theory Spec2Isabelle
  imports Complex_Main
begin

section \<open>Numbers and arrays\<close>

text \<open>
  The camera model of \<^verbatim>\<open>machinevisiontoolbox/Camera.py\<close> computes with numpy
  arrays of 64-bit floats. The embedding idealises them: a finite float is a
  \<^typ>\<open>real\<close> and arithmetic on finite values is exact (no rounding, no overflow).
  What IEEE arithmetic adds to the reals, and what the code relies on, is kept: the
  values \<open>inf\<close>, \<open>-inf\<close> and \<open>nan\<close>, which numpy produces (with a warning, never
  an exception) when it divides by zero and which \<^verbatim>\<open>project_point\<close> writes on
  purpose. Zero carries no sign: dividing a nonzero number by zero gives the infinity
  with the sign of the numerator.
\<close>

datatype npfloat = Fin real | PInf | NInf | NaN

fun isnan :: "npfloat \<Rightarrow> bool" where
  "isnan NaN = True"
| "isnan _ = False"

fun isinf :: "npfloat \<Rightarrow> bool" where
  "isinf PInf = True"
| "isinf NInf = True"
| "isinf _ = False"

fun fadd :: "npfloat \<Rightarrow> npfloat \<Rightarrow> npfloat" where
  "fadd (Fin a) (Fin b) = Fin (a + b)"
| "fadd NaN _ = NaN"
| "fadd _ NaN = NaN"
| "fadd PInf NInf = NaN"
| "fadd NInf PInf = NaN"
| "fadd PInf _ = PInf"
| "fadd _ PInf = PInf"
| "fadd NInf _ = NInf"
| "fadd _ NInf = NInf"

fun fmul :: "npfloat \<Rightarrow> npfloat \<Rightarrow> npfloat" where
  "fmul (Fin a) (Fin b) = Fin (a * b)"
| "fmul NaN _ = NaN"
| "fmul _ NaN = NaN"
| "fmul (Fin a) PInf = (if a = 0 then NaN else if 0 < a then PInf else NInf)"
| "fmul (Fin a) NInf = (if a = 0 then NaN else if 0 < a then NInf else PInf)"
| "fmul PInf (Fin b) = (if b = 0 then NaN else if 0 < b then PInf else NInf)"
| "fmul NInf (Fin b) = (if b = 0 then NaN else if 0 < b then NInf else PInf)"
| "fmul PInf PInf = PInf"
| "fmul NInf NInf = PInf"
| "fmul PInf NInf = NInf"
| "fmul NInf PInf = NInf"

fun fdiv :: "npfloat \<Rightarrow> npfloat \<Rightarrow> npfloat" where
  "fdiv (Fin a) (Fin b) =
     (if b \<noteq> 0 then Fin (a / b)
      else if 0 < a then PInf else if a < 0 then NInf else NaN)"
| "fdiv NaN _ = NaN"
| "fdiv _ NaN = NaN"
| "fdiv (Fin a) PInf = Fin 0"
| "fdiv (Fin a) NInf = Fin 0"
| "fdiv PInf (Fin b) = (if 0 \<le> b then PInf else NInf)"
| "fdiv NInf (Fin b) = (if 0 \<le> b then NInf else PInf)"
| "fdiv PInf PInf = NaN"
| "fdiv PInf NInf = NaN"
| "fdiv NInf PInf = NaN"
| "fdiv NInf NInf = NaN"

text \<open>Comparisons: every comparison with \<open>nan\<close> is false.\<close>

fun flt :: "npfloat \<Rightarrow> npfloat \<Rightarrow> bool" where
  "flt (Fin a) (Fin b) = (a < b)"
| "flt NaN _ = False"
| "flt _ NaN = False"
| "flt NInf NInf = False"
| "flt NInf _ = True"
| "flt _ NInf = False"
| "flt PInf _ = False"
| "flt _ PInf = True"

fun fge :: "npfloat \<Rightarrow> npfloat \<Rightarrow> bool" where
  "fge (Fin a) (Fin b) = (b \<le> a)"
| "fge NaN _ = False"
| "fge _ NaN = False"
| "fge PInf _ = True"
| "fge _ PInf = False"
| "fge _ NInf = True"
| "fge NInf _ = False"

type_synonym vec = "real list"
type_synonym mat = "real list list"

text \<open>
  A two-dimensional array is the list of its rows. \<open>A @ B\<close> of numpy is
  \<open>matmul\<close>, \<open>A.T\<close> is \<^const>\<open>transpose\<close>, \<open>A[::-1, ::-1]\<close> is \<open>flipud_lr\<close>.
\<close>

definition dot :: "vec \<Rightarrow> vec \<Rightarrow> real" where
  "dot u v = sum_list (map2 (*) u v)"

definition matvec :: "mat \<Rightarrow> vec \<Rightarrow> vec" where
  "matvec A v = map (\<lambda>r. dot r v) A"

definition matmul :: "mat \<Rightarrow> mat \<Rightarrow> mat" where
  "matmul A B = map (\<lambda>r. map (dot r) (transpose B)) A"

definition flipud_lr :: "mat \<Rightarrow> mat" where
  "flipud_lr A = rev (map rev A)"

definition shape :: "'a list list \<Rightarrow> (nat \<times> nat) option" where
  "shape A =
     (case A of [] \<Rightarrow> None
      | r # rs \<Rightarrow> if \<forall>x \<in> set rs. length x = length r
                 then Some (length A, length r) else None)"

datatype error = ValueError | RuntimeError | LinAlgError | ZeroDivisionError | IndexError

text \<open>
  \<open>np.linalg.det\<close> and \<open>np.linalg.inv\<close> are only ever applied to 3x3 arrays here.
  The determinant is the exact one; the inverse is the adjugate over the determinant,
  and a singular matrix raises \<open>LinAlgError\<close>.
\<close>

fun det3 :: "mat \<Rightarrow> real" where
  "det3 [[a, b, c], [d, e, f], [g, h, i]] =
     a * (e * i - f * h) - b * (d * i - f * g) + c * (d * h - e * g)"

fun adj3 :: "mat \<Rightarrow> mat" where
  "adj3 [[a, b, c], [d, e, f], [g, h, i]] =
     [[e * i - f * h, c * h - b * i, b * f - c * e],
      [f * g - d * i, a * i - c * g, c * d - a * f],
      [d * h - e * g, b * g - a * h, a * e - b * d]]"

definition inv3 :: "mat \<Rightarrow> error + mat" where
  "inv3 A = (if det3 A = 0 then Inl LinAlgError
             else Inr (map (map (\<lambda>x. x / det3 A)) (adj3 A)))"

section \<open>Poses\<close>

text \<open>
  \<open>SE3\<close> is the rigid-motion class of the spatialmath library: a rotation matrix
  \<open>R\<close> and a translation \<open>t\<close>, with \<open>A\<close> the 4x4 homogeneous matrix, \<open>inv()\<close> the
  inverse motion and \<open>*\<close> the composition. The translation is polymorphic because
  \<^verbatim>\<open>decomposeC\<close> can store non-finite values there.
\<close>

record 'a SE3 =
  SE3_R :: mat
  SE3_t :: "'a list"

definition SE3_Rt :: "mat \<Rightarrow> 'a list \<Rightarrow> 'a SE3" where
  "SE3_Rt Rm tv = \<lparr>SE3_R = Rm, SE3_t = tv\<rparr>"

definition SE3_inv :: "real SE3 \<Rightarrow> real SE3" where
  "SE3_inv T = \<lparr>SE3_R = transpose (SE3_R T),
                SE3_t = map uminus (matvec (transpose (SE3_R T)) (SE3_t T))\<rparr>"

definition SE3_mul :: "real SE3 \<Rightarrow> real SE3 \<Rightarrow> real SE3" where
  "SE3_mul T1 T2 = \<lparr>SE3_R = matmul (SE3_R T1) (SE3_R T2),
                    SE3_t = map2 (+) (matvec (SE3_R T1) (SE3_t T2)) (SE3_t T1)\<rparr>"

definition SE3_A :: "real SE3 \<Rightarrow> mat" where
  "SE3_A T = map2 (\<lambda>r x. r @ [x]) (SE3_R T) (SE3_t T) @ [[0, 0, 0, 1]]"

definition eye3 :: mat where
  "eye3 = [[1, 0, 0], [0, 1, 0], [0, 0, 1]]"

text \<open>
  An orthogonal 3x3 array: its rows and its columns are orthonormal. A proper rotation is
  an orthogonal array with determinant 1.
\<close>

definition orthogonal3 :: "mat \<Rightarrow> bool" where
  "orthogonal3 A =
     (shape A = Some (3, 3) \<and> matmul A (transpose A) = eye3 \<and> matmul (transpose A) A = eye3)"

definition SE3_id :: "real SE3" where
  "SE3_id = \<lparr>SE3_R = eye3, SE3_t = [0, 0, 0]\<rparr>"

text \<open>\<open>base.skew\<close>: the cross-product matrix of a 3-vector.\<close>

fun skew :: "vec \<Rightarrow> mat" where
  "skew [x, y, z] = [[0, - z, y], [z, 0, - x], [- y, x, 0]]"

section \<open>The camera\<close>

text \<open>
  The attributes of \<open>Camera\<close> and \<open>CentralCamera\<close> that the geometry reads: the
  focal lengths \<open>_fu\<close>, \<open>_fv\<close>, the pixel sizes \<open>_rhou\<close>, \<open>_rhov\<close>, the principal
  point \<open>_pp\<close> (\<open>u0\<close>, \<open>v0\<close>), the image size \<open>_imagesize\<close> (\<open>nu\<close>, \<open>nv\<close>), the
  noise level and the pose.
\<close>

record 'a camera =
  fu :: real
  fv :: real
  rhou :: real
  rhov :: real
  u0 :: real
  v0 :: real
  nu :: real
  nv :: real
  noise :: "real option"
  pose :: "'a SE3"

text \<open>
  The property \<open>K\<close>. The quotients \<open>fu / rhou\<close> and \<open>fv / rhov\<close> are finite when
  the pixel sizes are not zero; the statements below that depend on the entries of \<open>K\<close>
  assume so, through \<open>det3 (K cam) \<noteq> 0\<close> or \<open>camera_ok\<close>.
\<close>

definition K :: "'a camera \<Rightarrow> mat" where
  "K cam = [[fu cam / rhou cam, 0, u0 cam],
            [0, fv cam / rhov cam, v0 cam],
            [0, 0, 1]]"

definition P0 :: mat where
  "P0 = [[1, 0, 0, 0], [0, 1, 0, 0], [0, 0, 1, 0]]"

text \<open>\<open>C(self, T=None)\<close>: \<open>self.K @ P0 @ T.inv().A\<close>.\<close>

definition C :: "real camera \<Rightarrow> real SE3 option \<Rightarrow> mat" where
  "C cam T =
     (let T' = (case T of None \<Rightarrow> pose cam | Some T1 \<Rightarrow> T1)
      in matmul (matmul (K cam) P0) (SE3_A (SE3_inv T')))"

section \<open>Essential and fundamental matrix\<close>

text \<open>
  The argument \<open>other\<close> of \<open>E\<close> and \<open>F\<close> is dispatched on its run-time type: a numpy
  array, a \<open>CentralCamera\<close>, an \<open>SE3\<close>, or anything else.
\<close>

datatype view = NdArray mat | Cam "real camera" | Motion "real SE3" | OtherType

definition E :: "real camera \<Rightarrow> view \<Rightarrow> error + mat" where
  "E cam other =
     (case other of
        NdArray Fm \<Rightarrow>
          if shape Fm = Some (3, 3)
          then Inr (matmul (matmul (transpose (K cam)) Fm) (K cam))
          else Inl ValueError
      | Cam c2 \<Rightarrow>
          (let T21 = SE3_mul (SE3_inv (pose c2)) (pose cam)
           in Inr (matmul (skew (SE3_t T21)) (SE3_R T21)))
      | Motion T \<Rightarrow>
          (let T21 = SE3_inv T
           in Inr (matmul (skew (SE3_t T21)) (SE3_R T21)))
      | OtherType \<Rightarrow> Inl ValueError)"

definition F :: "real camera \<Rightarrow> view \<Rightarrow> error + mat" where
  "F cam other =
     (case other of
        Motion T \<Rightarrow>
          (case E cam other of Inl e \<Rightarrow> Inl e
           | Inr Em \<Rightarrow>
             (case inv3 (K cam) of Inl e \<Rightarrow> Inl e
              | Inr Ki \<Rightarrow> Inr (matmul (matmul (transpose Ki) Em) Ki)))
      | Cam c2 \<Rightarrow>
          (case E cam other of Inl e \<Rightarrow> Inl e
           | Inr Em \<Rightarrow>
             (case inv3 (K c2) of Inl e \<Rightarrow> Inl e
              | Inr K2i \<Rightarrow>
                (case inv3 (K cam) of Inl e \<Rightarrow> Inl e
                 | Inr K1i \<Rightarrow> Inr (matmul (matmul (transpose K2i) Em) K1i))))
      | _ \<Rightarrow> Inl ValueError)"

section \<open>Homography from a plane\<close>

text \<open>
  \<open>H(self, T, N, d)\<close>. The distance \<open>d\<close> is a Python number, so \<open>1.0 / d\<close> raises
  \<open>ZeroDivisionError\<close> at zero. \<open>T.t\<close> and \<open>N\<close> are one-dimensional arrays, so
  \<open>1.0 / d * T.t @ N\<close> is the scalar \<open>((1.0 / d) * T.t) . N\<close>, which numpy adds to every
  entry of \<open>T.R\<close>. The last division is numpy's.
\<close>

definition H :: "real camera \<Rightarrow> real SE3 \<Rightarrow> vec \<Rightarrow> real \<Rightarrow> error + npfloat list list" where
  "H cam T N d =
     (if d < 0 then Inl ValueError
      else if length N < 3 then Inl IndexError
      else if N ! 2 < 0 then Inl ValueError
      else
        (let T' = SE3_inv T in
         if d = 0 then Inl ZeroDivisionError
         else if length (SE3_t T') \<noteq> length N then Inl ValueError
         else
           (let s = dot (map (\<lambda>x. 1 / d * x) (SE3_t T')) N;
                HH = map (map (\<lambda>x. x + s)) (SE3_R T')
            in case inv3 (K cam) of
                 Inl e \<Rightarrow> Inl e
               | Inr Ki \<Rightarrow>
                   (let HH' = matmul (matmul (K cam) HH) Ki
                    in Inr (map (map (\<lambda>x. fdiv (Fin x) (Fin (HH' ! 2 ! 2)))) HH')))))"

section \<open>Calibration from point correspondences\<close>

text \<open>
  \<open>points2C(P, p)\<close>. The two rows that one correspondence adds to \<open>A\<close> are
  \<open>dlt_rows\<close>; the loop over \<open>zip(p.T, P.T)\<close> is \<open>points2C_loop\<close>, which fails where
  the unpacking \<open>u, v = uv\<close> or \<open>np.vstack\<close> would. \<open>scipy.linalg.lstsq\<close> is a
  parameter; only the solution vector it returns is used.
\<close>

definition dlt_rows :: "real \<Rightarrow> real \<Rightarrow> vec \<Rightarrow> mat" where
  "dlt_rows u v X =
     (let z4 = [0, 0, 0, 0]
      in [X @ [1] @ z4 @ map (\<lambda>x. - u * x) X,
          z4 @ X @ [1] @ map (\<lambda>x. - v * x) X])"

fun points2C_loop :: "(vec \<times> vec) list \<Rightarrow> mat \<Rightarrow> vec \<Rightarrow> error + (mat \<times> vec)" where
  "points2C_loop [] A b = Inr (A, b)"
| "points2C_loop ((uv, X) # rest) A b =
     (case uv of
        [u, v] \<Rightarrow>
          (let row = dlt_rows u v X
           in if length X \<noteq> 3 then Inl ValueError
              else points2C_loop rest (A @ row) (b @ uv))
      | _ \<Rightarrow> Inl ValueError)"

definition points2C ::
  "(mat \<Rightarrow> vec \<Rightarrow> error + vec) \<Rightarrow> mat \<Rightarrow> mat \<Rightarrow> error + (mat \<times> vec)" where
  "points2C lstsq P p =
     (case points2C_loop (zip (transpose p) (transpose P)) [] [] of
        Inl e \<Rightarrow> Inl e
      | Inr (A, b) \<Rightarrow>
          (case lstsq A b of
             Inl e \<Rightarrow> Inl e
           | Inr c \<Rightarrow>
               if length c \<noteq> 11 then Inl ValueError
               else
                 (let r = map2 (-) (matvec A c) b;
                      c' = c @ [1]
                  in Inr ([take 4 c', take 4 (drop 4 c'), drop 8 c'], r))))"

text \<open>
  The minimum-norm least-squares solution of a system whose rows are not zero and
  orthogonal to each other, \<open>c = sum_i (b_i / |a_i|^2) a_i\<close>: on such a system it is the
  solution that \<open>scipy.linalg.lstsq\<close> computes.
\<close>

definition lstsq_orthogonal_rows :: "mat \<Rightarrow> vec \<Rightarrow> error + vec" where
  "lstsq_orthogonal_rows A b = Inr (matvec (transpose A) (map2 (\<lambda>r x. x / dot r r) A b))"

section \<open>Projection of points\<close>

text \<open>
  \<open>project_point(self, P, pose, objpose, behind, visibility)\<close>, for \<open>P\<close> a
  two-dimensional array with one point per column. \<open>base.e2h\<close> appends a row of ones and
  \<open>base.h2e\<close> divides the other rows by the last one. \<open>homogeneous_points\<close> is the
  value of \<open>P\<close> when the line \<open>x = C @ P\<close> is reached. \<open>add_noise_distortion\<close> adds a
  sample of \<open>np.random.normal\<close> to every entry when the camera has a noise level; the
  sample drawn for the entry \<open>(i, j)\<close> is the parameter \<open>eps i j\<close>, any finite number.
\<close>

definition e2h :: "mat \<Rightarrow> mat" where
  "e2h P = P @ [replicate (length (hd P)) 1]"

definition add_noise_distortion ::
  "'a camera \<Rightarrow> (nat \<Rightarrow> nat \<Rightarrow> real) \<Rightarrow> npfloat list list \<Rightarrow> npfloat list list" where
  "add_noise_distortion cam eps uv =
     (case noise cam of
        None \<Rightarrow> uv
      | Some sigma \<Rightarrow>
          map (\<lambda>i. map (\<lambda>j. fadd (uv ! i ! j) (Fin (eps i j))) [0..<length (uv ! i)])
            [0..<length uv])"

definition homogeneous_points :: "mat \<Rightarrow> real SE3 option \<Rightarrow> error + mat" where
  "homogeneous_points P objpose =
     (let P1 = (if length P = 3 then e2h P else P)
      in case objpose of
           None \<Rightarrow> Inr P1
         | Some T \<Rightarrow> if length P1 \<noteq> 4 then Inl ValueError else Inr (matmul (SE3_A T) P1))"

definition visible_flags :: "'a camera \<Rightarrow> npfloat list list \<Rightarrow> bool list" where
  "visible_flags cam x =
     map2 (\<lambda>a b. \<not> isnan a \<and> fge a (Fin 0) \<and> fge b (Fin 0)
                  \<and> flt a (Fin (nu cam)) \<and> flt b (Fin (nv cam)))
       (x ! 0) (x ! 1)"

definition project_point ::
  "real camera \<Rightarrow> (nat \<Rightarrow> nat \<Rightarrow> real) \<Rightarrow> mat \<Rightarrow> real SE3 option \<Rightarrow> real SE3 option
     \<Rightarrow> bool \<Rightarrow> bool \<Rightarrow> error + (npfloat list list \<times> bool list option)" where
  "project_point cam eps P pose' objpose behind visibility =
     (let pose1 = (case pose' of None \<Rightarrow> pose cam | Some T \<Rightarrow> T);
          Cm = C cam (Some pose1)
      in case homogeneous_points P objpose of
           Inl e \<Rightarrow> Inl e
         | Inr P2 \<Rightarrow>
             if length P2 \<noteq> 4 then Inl ValueError
             else
               (let x = matmul Cm P2;
                    x2 = map (\<lambda>z. if behind \<and> z < 0 then NaN else Fin z) (x ! 2);
                    uv = [map2 fdiv (map Fin (x ! 0)) x2, map2 fdiv (map Fin (x ! 1)) x2];
                    uv' = add_noise_distortion cam eps uv
                in if visibility then Inr (uv', Some (visible_flags cam uv'))
                   else Inr (uv', None)))"

text \<open>
  The vocabulary of the statements about \<open>project_point\<close>: a pose is well formed when
  its rotation is 3x3 and its translation has 3 entries; \<open>camera_depth T Pw\<close> is the
  row of z coordinates of the homogeneous points \<open>Pw\<close> in the frame of a camera at
  pose \<open>T\<close>; \<open>image_homogeneous\<close> is the array \<open>x = C @ P\<close>; \<open>noise_at\<close> is what
  \<open>add_noise_distortion\<close> does to one entry.
\<close>

definition pose_ok :: "real SE3 \<Rightarrow> bool" where
  "pose_ok T = (shape (SE3_R T) = Some (3, 3) \<and> length (SE3_t T) = 3)"

definition camera_depth :: "real SE3 \<Rightarrow> mat \<Rightarrow> vec" where
  "camera_depth T Pw = matmul (SE3_A (SE3_inv T)) Pw ! 2"

definition image_homogeneous :: "real camera \<Rightarrow> real SE3 \<Rightarrow> mat \<Rightarrow> mat" where
  "image_homogeneous cam T Pw = matmul (C cam (Some T)) Pw"

definition noise_at ::
  "'a camera \<Rightarrow> (nat \<Rightarrow> nat \<Rightarrow> real) \<Rightarrow> nat \<Rightarrow> nat \<Rightarrow> npfloat \<Rightarrow> npfloat" where
  "noise_at cam eps k i v =
     (case noise cam of None \<Rightarrow> v | Some sigma \<Rightarrow> fadd v (Fin (eps k i)))"

section \<open>Image Jacobian of point features\<close>

text \<open>
  \<open>visjac_p(self, uv, Z)\<close>. \<open>base.getmatrix(uv, (2, None))\<close> accepts an array with two
  rows; \<open>Z\<close> is the array that \<open>base.getvector\<close> returns, of length 1 for a scalar. The
  body of the loop is \<open>visjac_point\<close>; it divides by the depth with numpy's division and
  multiplies with numpy's \<open>@\<close>, so its entries may be \<open>inf\<close> or \<open>nan\<close> at depth zero
  (\<open>fdot\<close>, \<open>fmatmul\<close>).
\<close>

definition fdot :: "npfloat list \<Rightarrow> npfloat list \<Rightarrow> npfloat" where
  "fdot u v = foldl fadd (Fin 0) (map2 fmul u v)"

definition fmatmul :: "npfloat list list \<Rightarrow> npfloat list list \<Rightarrow> npfloat list list" where
  "fmatmul A B = map (\<lambda>r. map (fdot r) (transpose B)) A"

definition visjac_point :: "mat \<Rightarrow> mat \<Rightarrow> real \<Rightarrow> vec \<Rightarrow> npfloat list list" where
  "visjac_point Km Kinv z p =
     (let xy = matvec Kinv (p @ [1]);
          x = xy ! 0;
          y = xy ! 1
      in fmatmul (map (map Fin) (map (take 2) (take 2 Km)))
           [[fdiv (Fin (- 1)) (Fin z), Fin 0, fdiv (Fin x) (Fin z),
               Fin (x * y), Fin (- (1 + x\<^sup>2)), Fin y],
            [Fin 0, fdiv (Fin (- 1)) (Fin z), fdiv (Fin y) (Fin z),
               Fin (1 + y\<^sup>2), Fin (- x * y), Fin (- x)]])"

definition visjac_p :: "real camera \<Rightarrow> mat \<Rightarrow> vec \<Rightarrow> error + npfloat list list" where
  "visjac_p cam uv Z =
     (if length uv \<noteq> 2 \<or> length (uv ! 0) \<noteq> length (uv ! 1) then Inl ValueError
      else
        (let N = length (uv ! 0)
         in case (if length Z = 1 then Inr (replicate N (Z ! 0))
                  else if length Z \<noteq> N then Inl ValueError
                  else Inr Z) of
              Inl e \<Rightarrow> Inl e
            | Inr Z1 \<Rightarrow>
                (case inv3 (K cam) of
                   Inl e \<Rightarrow> Inl e
                 | Inr Kinv \<Rightarrow>
                     Inr (concat (map (\<lambda>(z, p). visjac_point (K cam) Kinv z p)
                                   (zip Z1 (transpose uv)))))))"

text \<open>
  The closed form of the Jacobian of one point, as the specification writes it:
  \<open>K[:2,:2] @ [[-1/Z, 0, x/Z, xy, -(1+x^2), y], [0, -1/Z, y/Z, 1+y^2, -xy, -x]]\<close> with
  \<open>(x, y)\<close> the first two entries of \<open>inv(K) @ [u; v; 1]\<close>, over the reals.
\<close>

definition jacobian_closed_form :: "mat \<Rightarrow> mat \<Rightarrow> real \<Rightarrow> real \<Rightarrow> real \<Rightarrow> mat" where
  "jacobian_closed_form Km Kinv u v Zd =
     (let x = matvec Kinv [u, v, 1] ! 0;
          y = matvec Kinv [u, v, 1] ! 1
      in matmul (map (take 2) (take 2 Km))
           [[- 1 / Zd, 0, x / Zd, x * y, - (1 + x\<^sup>2), y],
            [0, - 1 / Zd, y / Zd, 1 + y\<^sup>2, - x * y, - x]])"

section \<open>Decomposition of the camera matrix\<close>

text \<open>
  \<open>decomposeC(cls, C)\<close>. \<open>np.linalg.svd\<close> and \<open>np.linalg.qr\<close> are parameters: \<open>svd\<close>
  returns the triple \<open>(u, s, vh)\<close> and \<open>qr\<close> the pair \<open>(Q, R)\<close>. \<open>np.isclose\<close> has its
  default tolerances, \<open>rtol = 1e-5\<close> and \<open>atol = 1e-8\<close>. \<open>np.diag\<close> is \<open>diag3\<close> on a 3x3
  array and \<open>diagmat3\<close> on a 3-vector; \<open>np.sign\<close> is \<^const>\<open>sgn\<close>. The division
  \<open>t / t[3]\<close> is numpy's and may divide by zero. The divisions by \<open>K[2, 2]\<close> and
  \<open>K[0, 0]\<close> are only reached after the sign check, where both are positive for a 3x3
  factor \<open>K\<close>. \<open>CentralCamera_init\<close> is the constructor call
  \<open>cls(name='invC', f=f, pp=pp, rho=s, pose=pose)\<close>, with a scalar \<open>f\<close> and the default
  image size.
\<close>

definition isclose :: "real \<Rightarrow> real \<Rightarrow> bool" where
  "isclose a b = (\<bar>a - b\<bar> \<le> 1 / 10 ^ 8 + 1 / 10 ^ 5 * \<bar>b\<bar>)"

fun diag3 :: "mat \<Rightarrow> vec" where
  "diag3 [[a, b, c], [d, e, f], [g, h, i]] = [a, e, i]"

fun diagmat3 :: "vec \<Rightarrow> mat" where
  "diagmat3 [a, b, c] = [[a, 0, 0], [0, b, 0], [0, 0, c]]"

definition rq :: "(mat \<Rightarrow> mat \<times> mat) \<Rightarrow> mat \<Rightarrow> mat \<times> mat" where
  "rq qr S =
     (let S1 = transpose S;
          (Q, U) = qr (flipud_lr S1);
          Q1 = transpose Q;
          Q2 = flipud_lr Q1;
          U1 = transpose U;
          U2 = flipud_lr U1
      in if det3 Q2 < 0
         then (map (\<lambda>r. (- hd r) # tl r) U2, map uminus (hd Q2) # tl Q2)
         else (U2, Q2))"

definition CentralCamera_init :: "real \<Rightarrow> vec \<Rightarrow> vec \<Rightarrow> 'a SE3 \<Rightarrow> 'a camera" where
  "CentralCamera_init f pp rho T =
     \<lparr>fu = f, fv = f, rhou = rho ! 0, rhov = rho ! 1, u0 = pp ! 0, v0 = pp ! 1,
      nu = 1024, nv = 1024, noise = None, pose = T\<rparr>"

definition sign_correction :: "mat \<Rightarrow> mat" where
  "sign_correction Kq = diagmat3 (map sgn (diag3 Kq))"

definition decomposeC ::
  "(mat \<Rightarrow> mat \<times> vec \<times> mat) \<Rightarrow> (mat \<Rightarrow> mat \<times> mat) \<Rightarrow> mat \<Rightarrow> error + npfloat camera" where
  "decomposeC svd qr Cm =
     (if shape Cm \<noteq> Some (3, 4) then Inl ValueError
      else
        (let (u, s, vh) = svd Cm;
             v = transpose vh;
             t = map (\<lambda>r. r ! 3) v;
             t1 = map (\<lambda>x. fdiv (Fin x) (Fin (t ! 3))) t;
             t2 = take 3 t1;
             M = map (take 3) (take 3 Cm);
             (Kq, Rq) = rq qr M;
             Cs = sign_correction Kq
         in if \<not> isclose (det3 Cs) 1 then Inl RuntimeError
            else
              (let K1 = matmul Kq Cs;
                   R1 = matmul (transpose Cs) Rq;
                   K2 = map (map (\<lambda>x. x / K1 ! 2 ! 2)) K1;
                   f = K2 ! 0 ! 0;
                   s = [1, K2 ! 1 ! 1 / K2 ! 0 ! 0]
               in Inr (CentralCamera_init f (map (\<lambda>r. r ! 2) (take 2 K2)) s
                        (SE3_Rt (transpose R1) t2)))))"

text \<open>
  What the statements about \<open>decomposeC\<close> need: \<open>leading3\<close> is \<open>C[:3, :3]\<close>;
  \<open>camera_centre\<close> is the value of \<open>t\<close> after \<open>t = t[:3]\<close>; \<open>upper3\<close> is a 3x3 upper
  triangular array. \<open>qr_contract\<close> says of one call of \<open>qr\<close> what \<open>np.linalg.qr\<close>
  promises: an orthogonal \<open>Q\<close> and an upper triangular \<open>R\<close> with \<open>Q @ R\<close> the argument.
  \<open>svd_contract\<close> says of one call of \<open>svd\<close> what is used of \<open>np.linalg.svd\<close> on a 3x4
  array: \<open>vh\<close> is 4x4 and its last row is a unit vector of the null space.
\<close>

definition qr_contract :: "(mat \<Rightarrow> mat \<times> mat) \<Rightarrow> mat \<Rightarrow> bool" where
  "qr_contract qr A =
     (case qr A of (Q, U) \<Rightarrow>
        orthogonal3 Q \<and> shape U = Some (3, 3)
        \<and> U ! 1 ! 0 = 0 \<and> U ! 2 ! 0 = 0 \<and> U ! 2 ! 1 = 0 \<and> matmul Q U = A)"

definition svd_contract :: "(mat \<Rightarrow> mat \<times> vec \<times> mat) \<Rightarrow> mat \<Rightarrow> bool" where
  "svd_contract svd Cm =
     (case svd Cm of (u, s, vh) \<Rightarrow>
        shape vh = Some (4, 4) \<and> dot (vh ! 3) (vh ! 3) = 1 \<and> matvec Cm (vh ! 3) = [0, 0, 0])"

definition upper3 :: "mat \<Rightarrow> bool" where
  "upper3 A = (shape A = Some (3, 3) \<and> A ! 1 ! 0 = 0 \<and> A ! 2 ! 0 = 0 \<and> A ! 2 ! 1 = 0)"

definition camera_centre :: "(mat \<Rightarrow> mat \<times> vec \<times> mat) \<Rightarrow> mat \<Rightarrow> npfloat list" where
  "camera_centre svd Cm =
     (let (u, s, vh) = svd Cm;
          v = transpose vh;
          t = map (\<lambda>r. r ! 3) v
      in take 3 (map (\<lambda>x. fdiv (Fin x) (Fin (t ! 3))) t))"

definition leading3 :: "mat \<Rightarrow> mat" where
  "leading3 Cm = map (take 3) (take 3 Cm)"

text \<open>
  A camera with positive focal lengths in pixels whose pose is a proper rotation and a
  translation of 3 entries.
\<close>

definition camera_ok :: "real camera \<Rightarrow> bool" where
  "camera_ok cam =
     (0 < fu cam / rhou cam \<and> 0 < fv cam / rhov cam
      \<and> orthogonal3 (SE3_R (pose cam)) \<and> det3 (SE3_R (pose cam)) = 1
      \<and> length (SE3_t (pose cam)) = 3)"

section \<open>Concrete inputs\<close>

text \<open>
  \<open>CentralCamera()\<close> with every argument at its default: \<open>f = 8e-3\<close>,
  \<open>rho = 10e-6\<close>, \<open>imagesize = (1024, 1024)\<close>, the principal point at the image
  centre, no noise and the identity pose.
\<close>

definition CentralCamera_default :: "real camera" where
  "CentralCamera_default =
     \<lparr>fu = 8 / 1000, fv = 8 / 1000, rhou = 1 / 100000, rhov = 1 / 100000,
      u0 = 512, v0 = 512, nu = 1024, nv = 1024, noise = None, pose = SE3_id\<rparr>"

text \<open>
  The factorisation that Householder QR returns for an argument that is already upper
  triangular: \<open>Q\<close> the identity and \<open>R\<close> the argument.
\<close>

definition qr_of_upper :: "mat \<Rightarrow> mat \<times> mat" where
  "qr_of_upper A = (eye3, A)"

text \<open>
  A camera with the identity as intrinsic matrix and orientation, on the z axis at
  distance \<open>5e16\<close>, and its matrix. The last right-singular vector of the matrix is
  \<open>(0, 0, 5e16, 1) / sqrt(1 + 25e32)\<close>, with a 4th component of \<open>2e-17\<close>; in double
  precision \<open>np.linalg.svd\<close> returns \<open>(0, 0, 1, 0)\<close> for it, the 4th component being
  lost against the third. \<open>far_svd\<close> has that last row of \<open>vh\<close>, the only part of the
  decomposition that \<open>decomposeC\<close> reads; its other entries are the singular value
  decomposition of the matrix \<open>far_nearby\<close>, which differs from \<open>far_matrix\<close> by one
  part in \<open>5e16\<close> and has that null vector.
\<close>

definition far_matrix :: mat where
  "far_matrix = [[1, 0, 0, 0], [0, 1, 0, 0], [0, 0, 1, - (5 * 10 ^ 16)]]"

definition far_nearby :: mat where
  "far_nearby = [[1, 0, 0, 0], [0, 1, 0, 0], [0, 0, 0, - (5 * 10 ^ 16)]]"

definition far_svd :: "mat \<Rightarrow> mat \<times> vec \<times> mat" where
  "far_svd A =
     ([[0, 1, 0], [0, 0, 1], [1, 0, 0]],
      [5 * 10 ^ 16, 1, 1],
      [[0, 0, 0, - 1], [1, 0, 0, 0], [0, 1, 0, 0], [0, 0, 1, 0]])"

text \<open>
  An affine camera, with its centre at infinity, and the singular value decomposition of
  its matrix, with the last right-singular vector \<open>(0, 0, -1, 0)\<close> as \<open>np.linalg.svd\<close>
  returns it.
\<close>

definition affine_matrix :: mat where
  "affine_matrix = [[1, 0, 0, 0], [0, 1, 0, 0], [0, 0, 0, 1]]"

definition affine_svd :: "mat \<Rightarrow> mat \<times> vec \<times> mat" where
  "affine_svd A =
     (eye3, [1, 1, 1], [[1, 0, 0, 0], [0, 1, 0, 0], [0, 0, 0, 1], [0, 0, - 1, 0]])"

text \<open>
  A camera with pixels that are not square, \<open>K = diag(1, 2, 1)\<close>, at \<open>(3/4, 0, 0)\<close>, and a
  singular value decomposition of its matrix
  \<open>[[1, 0, 0, -3/4], [0, 2, 0, 0], [0, 0, 1, 0]]\<close>.
\<close>

definition nonsquare_camera :: "real camera" where
  "nonsquare_camera =
     \<lparr>fu = 1, fv = 1, rhou = 1, rhov = 1 / 2, u0 = 0, v0 = 0, nu = 1024, nv = 1024,
      noise = None, pose = \<lparr>SE3_R = eye3, SE3_t = [3 / 4, 0, 0]\<rparr>\<rparr>"

definition nonsquare_svd :: "mat \<Rightarrow> mat \<times> vec \<times> mat" where
  "nonsquare_svd A =
     ([[0, 1, 0], [1, 0, 0], [0, 0, 1]],
      [2, 5 / 4, 1],
      [[0, 1, 0, 0], [4 / 5, 0, 0, - 3 / 5], [0, 0, 1, 0], [3 / 5, 0, 0, 4 / 5]])"

text \<open>
  A "pose" at the same place whose rotation is the reflection \<open>diag(1, 1, -1)\<close>, of
  determinant \<open>-1\<close>, and a singular value decomposition of the matrix
  \<open>[[1, 0, 0, -3/4], [0, 2, 0, 0], [0, 0, -1, 0]]\<close> of the camera under it.
\<close>

definition reflection_pose :: "real SE3" where
  "reflection_pose = \<lparr>SE3_R = [[1, 0, 0], [0, 1, 0], [0, 0, - 1]], SE3_t = [3 / 4, 0, 0]\<rparr>"

definition reflection_svd :: "mat \<Rightarrow> mat \<times> vec \<times> mat" where
  "reflection_svd A =
     ([[0, 1, 0], [1, 0, 0], [0, 0, - 1]],
      [2, 5 / 4, 1],
      [[0, 1, 0, 0], [4 / 5, 0, 0, - 3 / 5], [0, 0, 1, 0], [3 / 5, 0, 0, 4 / 5]])"

section \<open>Auxiliary facts about arrays\<close>

lemma len2: "length xs = 2 \<Longrightarrow> \<exists>a b. xs = [a, b]"
  by (auto simp: eval_nat_numeral length_Suc_conv)

lemma len3: "length xs = 3 \<Longrightarrow> \<exists>a b c. xs = [a, b, c]"
  by (auto simp: eval_nat_numeral length_Suc_conv)

lemma len4: "length xs = 4 \<Longrightarrow> \<exists>a b c d. xs = [a, b, c, d]"
  by (auto simp: eval_nat_numeral length_Suc_conv)

lemma shape_rows:
  assumes "shape A = Some (m, n)"
  shows "length A = m" and "\<forall>x\<in>set A. length x = n"
  using assms by (auto simp: shape_def split: list.splits if_splits)

lemma shape33:
  assumes "shape A = Some (3, 3)"
  shows "\<exists>a b c d e f g h i. A = [[a, b, c], [d, e, f], [g, h, i]]"
proof -
  from shape_rows[OF assms] have l: "length A = 3" and r: "\<forall>x\<in>set A. length x = 3"
    by auto
  from len3[OF l] obtain x y z where A: "A = [x, y, z]" by blast
  with r have "length x = 3" "length y = 3" "length z = 3" by auto
  with A show ?thesis by (auto dest!: len3)
qed

lemma concat_pairs:
  assumes "\<forall>x\<in>set xs. length (f x) = 2"
  shows "length (concat (map f xs)) = 2 * length xs"
    and "i < length xs \<Longrightarrow> concat (map f xs) ! (2 * i) = f (xs ! i) ! 0
          \<and> concat (map f xs) ! (2 * i + 1) = f (xs ! i) ! 1"
  using assms
proof (induction xs arbitrary: i)
  case Nil
  { case 1 show ?case by simp }
  { case 2 then show ?case by simp }
next
  case (Cons a xs)
  { case 1 then show ?case using Cons.IH(1) by simp }
  { case 2
    from 2(2) have la: "length (f a) = 2" and r: "\<forall>x\<in>set xs. length (f x) = 2" by auto
    show ?case
    proof (cases i)
      case 0
      then show ?thesis using la by (simp add: nth_append)
    next
      case (Suc j)
      with 2(1) have "j < length xs" by simp
      from Cons.IH(2)[OF this r] show ?thesis using la Suc by (simp add: nth_append)
    qed }
qed

text \<open>In a proper rotation every entry is its own cofactor.\<close>

lemma rot_cofactor:
  fixes a b c d e f g h i :: real
  assumes r0: "a*a+b*b+c*c = 1" and r01: "a*d+b*e+c*f = 0" and r02: "a*g+b*h+c*i = 0"
    and r1: "d*d+e*e+f*f = 1" and r12: "d*g+e*h+f*i = 0" and r2: "g*g+h*h+i*i = 1"
    and dt: "a * (e * i - f * h) - b * (d * i - f * g) + c * (d * h - e * g) = 1"
  shows "a = e*i - f*h" "b = f*g - d*i" "c = d*h - e*g"
        "d = c*h - b*i" "e = a*i - c*g" "f = b*g - a*h"
        "g = b*f - c*e" "h = c*d - a*f" "i = a*e - b*d"
proof -
  define D where "D = a * (e * i - f * h) - b * (d * i - f * g) + c * (d * h - e * g)"
  have D1: "D = 1" using dt by (simp add: D_def)
  have "e*i - f*h = (e*i - f*h) * (a*a+b*b+c*c) + (c*h - b*i) * (a*d+b*e+c*f)
      + (b*f - c*e) * (a*g+b*h+c*i)"
    by (simp add: r0 r01 r02)
  also have "\<dots> = D * a" by (simp add: D_def algebra_simps)
  finally show "a = e*i - f*h" by (simp add: D1)
  have "f*g - d*i = (f*g - d*i) * (a*a+b*b+c*c) + (a*i - c*g) * (a*d+b*e+c*f)
      + (c*d - a*f) * (a*g+b*h+c*i)"
    by (simp add: r0 r01 r02)
  also have "\<dots> = D * b" by (simp add: D_def algebra_simps)
  finally show "b = f*g - d*i" by (simp add: D1)
  have "d*h - e*g = (d*h - e*g) * (a*a+b*b+c*c) + (b*g - a*h) * (a*d+b*e+c*f)
      + (a*e - b*d) * (a*g+b*h+c*i)"
    by (simp add: r0 r01 r02)
  also have "\<dots> = D * c" by (simp add: D_def algebra_simps)
  finally show "c = d*h - e*g" by (simp add: D1)
  have "c*h - b*i = (e*i - f*h) * (a*d+b*e+c*f) + (c*h - b*i) * (d*d+e*e+f*f)
      + (b*f - c*e) * (d*g+e*h+f*i)"
    by (simp add: r1 r01 r12)
  also have "\<dots> = D * d" by (simp add: D_def algebra_simps)
  finally show "d = c*h - b*i" by (simp add: D1)
  have "a*i - c*g = (f*g - d*i) * (a*d+b*e+c*f) + (a*i - c*g) * (d*d+e*e+f*f)
      + (c*d - a*f) * (d*g+e*h+f*i)"
    by (simp add: r1 r01 r12)
  also have "\<dots> = D * e" by (simp add: D_def algebra_simps)
  finally show "e = a*i - c*g" by (simp add: D1)
  have "b*g - a*h = (d*h - e*g) * (a*d+b*e+c*f) + (b*g - a*h) * (d*d+e*e+f*f)
      + (a*e - b*d) * (d*g+e*h+f*i)"
    by (simp add: r1 r01 r12)
  also have "\<dots> = D * f" by (simp add: D_def algebra_simps)
  finally show "f = b*g - a*h" by (simp add: D1)
  have "b*f - c*e = (e*i - f*h) * (a*g+b*h+c*i) + (c*h - b*i) * (d*g+e*h+f*i)
      + (b*f - c*e) * (g*g+h*h+i*i)"
    by (simp add: r2 r02 r12)
  also have "\<dots> = D * g" by (simp add: D_def algebra_simps)
  finally show "g = b*f - c*e" by (simp add: D1)
  have "c*d - a*f = (f*g - d*i) * (a*g+b*h+c*i) + (a*i - c*g) * (d*g+e*h+f*i)
      + (c*d - a*f) * (g*g+h*h+i*i)"
    by (simp add: r2 r02 r12)
  also have "\<dots> = D * h" by (simp add: D_def algebra_simps)
  finally show "h = c*d - a*f" by (simp add: D1)
  have "a*e - b*d = (d*h - e*g) * (a*g+b*h+c*i) + (b*g - a*h) * (d*g+e*h+f*i)
      + (a*e - b*d) * (g*g+h*h+i*i)"
    by (simp add: r2 r02 r12)
  also have "\<dots> = D * i" by (simp add: D_def algebra_simps)
  finally show "i = a*e - b*d" by (simp add: D1)
qed

lemma K_default: "K CentralCamera_default = [[800, 0, 512], [0, 800, 512], [0, 0, 1]]"
  by (simp add: K_def CentralCamera_default_def)

lemma orthogonal3_eye3: "orthogonal3 eye3"
  by (simp add: orthogonal3_def eye3_def shape_def matmul_def dot_def)

section \<open>Essential matrix of an explicit relative motion (C3)\<close>

text \<open>
  C3, as stated: for an \<open>SE3\<close> argument \<open>T = (R, t)\<close>, \<open>E(T)\<close> is \<open>[t]x R\<close> computed
  from \<open>T\<close> itself. The code computes \<open>T21 = other.inv()\<close> first. At \<open>R\<close> the identity
  and \<open>t = (1, 0, 0)\<close> the result is the negative of \<open>[t]x R\<close>.
\<close>

theorem E_motion_counterexample:
  "E CentralCamera_default (Motion \<lparr>SE3_R = eye3, SE3_t = [1, 0, 0]\<rparr>)
     = Inr [[0, 0, 0], [0, 0, 1], [0, - 1, 0]]
   \<and> matmul (skew [1, 0, 0]) eye3 = [[0, 0, 0], [0, 0, - 1], [0, 1, 0]]
   \<and> E CentralCamera_default (Motion \<lparr>SE3_R = eye3, SE3_t = [1, 0, 0]\<rparr>)
     \<noteq> Inr (matmul (skew [1, 0, 0]) eye3)"
  by (simp add: E_def SE3_inv_def matmul_def matvec_def dot_def eye3_def)

text \<open>
  C3, amended: for an \<open>SE3\<close> argument \<open>T = (R, t)\<close> with \<open>R\<close> a proper rotation,
  \<open>E(T)\<close> is \<open>[t']x R'\<close> for the inverse motion \<open>(R', t') = T.inv()\<close>, that is
  \<open>R' = R.T\<close> and \<open>t' = - R.T t\<close>; this matrix is the transpose of \<open>[t]x R\<close>.
\<close>

theorem E_motion_uses_inverse:
  assumes "orthogonal3 Rm" and "det3 Rm = 1" and "length tv = 3"
  shows "E cam (Motion \<lparr>SE3_R = Rm, SE3_t = tv\<rparr>)
           = Inr (matmul (skew (map uminus (matvec (transpose Rm) tv))) (transpose Rm))
         \<and> E cam (Motion \<lparr>SE3_R = Rm, SE3_t = tv\<rparr>)
           = Inr (transpose (matmul (skew tv) Rm))"
proof -
  from assms(1) obtain a b c d e f g h i where R: "Rm = [[a, b, c], [d, e, f], [g, h, i]]"
    using shape33 unfolding orthogonal3_def by blast
  from assms(3) obtain x y z where t: "tv = [x, y, z]" using len3 by blast
  have o: "a*a+b*b+c*c = 1" "a*d+b*e+c*f = 0" "a*g+b*h+c*i = 0"
     "d*d+e*e+f*f = 1" "d*g+e*h+f*i = 0" "g*g+h*h+i*i = 1"
    using assms(1) unfolding R orthogonal3_def
    by (simp_all add: matmul_def dot_def eye3_def algebra_simps)
  have dt: "a * (e * i - f * h) - b * (d * i - f * g) + c * (d * h - e * g) = 1"
    using assms(2) unfolding R by simp
  note cf = rot_cofactor[OF o dt]
  have inv: "E cam (Motion \<lparr>SE3_R = Rm, SE3_t = tv\<rparr>)
      = Inr (matmul (skew (map uminus (matvec (transpose Rm) tv))) (transpose Rm))"
    by (simp add: E_def SE3_inv_def)
  have tr: "E cam (Motion \<lparr>SE3_R = Rm, SE3_t = tv\<rparr>) = Inr (transpose (matmul (skew tv) Rm))"
    unfolding R t
    apply (simp add: E_def SE3_inv_def matmul_def matvec_def dot_def)
    apply (intro conjI)
    subgoal by (simp only: cf(7) cf(4)) (simp add: algebra_simps)
    subgoal by (simp only: cf(1) cf(7)) (simp add: algebra_simps)
    subgoal by (simp only: cf(4) cf(1)) (simp add: algebra_simps)
    subgoal by (simp only: cf(8) cf(5)) (simp add: algebra_simps)
    subgoal by (simp only: cf(2) cf(8)) (simp add: algebra_simps)
    subgoal by (simp only: cf(5) cf(2)) (simp add: algebra_simps)
    subgoal by (simp only: cf(9) cf(6)) (simp add: algebra_simps)
    subgoal by (simp only: cf(3) cf(9)) (simp add: algebra_simps)
    subgoal by (simp only: cf(6) cf(3)) (simp add: algebra_simps)
    done
  from inv tr show ?thesis by blast
qed

theorem E_motion_uses_inverse_witness:
  "E CentralCamera_default (Motion \<lparr>SE3_R = eye3, SE3_t = [1, 2, 3]\<rparr>)
     = Inr [[0, 3, - 2], [- 3, 0, 1], [2, - 1, 0]]
   \<and> transpose (matmul (skew [1, 2, 3]) eye3) = [[0, 3, - 2], [- 3, 0, 1], [2, - 1, 0]]"
proof -
  have d: "det3 eye3 = 1" by (simp add: eye3_def)
  have l: "length [1, 2, 3 :: real] = 3" by simp
  from E_motion_uses_inverse[OF orthogonal3_eye3 d l, of CentralCamera_default]
  show ?thesis by (simp add: matmul_def matvec_def dot_def eye3_def)
qed

section \<open>Fundamental and essential matrix of two views (C8)\<close>

text \<open>
  C8: for two \<open>CentralCamera\<close> views with the same, invertible intrinsic matrix
  \<open>K\<close>, \<open>C1.F(C2)\<close> returns \<open>inv(K).T @ E @ inv(K)\<close>, where \<open>E = C1.E(C2)\<close> is the
  essential matrix of the same pair and \<open>inv(K)\<close> is the inverse of \<open>K\<close>.
\<close>

theorem F_from_E_shared_K:
  assumes "K c2 = K c1" and "det3 (K c1) \<noteq> 0"
  shows "\<exists>Ki Em. inv3 (K c1) = Inr Ki \<and> matmul (K c1) Ki = eye3 \<and> matmul Ki (K c1) = eye3
           \<and> E c1 (Cam c2) = Inr Em
           \<and> F c1 (Cam c2) = Inr (matmul (matmul (transpose Ki) Em) Ki)"
proof -
  let ?Ki = "map (map (\<lambda>x. x / det3 (K c1))) (adj3 (K c1))"
  have i: "inv3 (K c1) = Inr ?Ki"
    using assms(2) by (simp add: inv3_def)
  have r: "matmul (K c1) ?Ki = eye3"
    using assms(2) by (simp add: K_def matmul_def dot_def eye3_def field_simps)
  have l: "matmul ?Ki (K c1) = eye3"
    using assms(2) by (simp add: K_def matmul_def dot_def eye3_def field_simps)
  from i r l assms(1) show ?thesis
    by (simp add: F_def E_def Let_def)
qed

theorem F_from_E_shared_K_witness:
  "\<exists>Ki Em. inv3 (K CentralCamera_default) = Inr Ki
       \<and> matmul (K CentralCamera_default) Ki = eye3
       \<and> matmul Ki (K CentralCamera_default) = eye3
       \<and> E CentralCamera_default (Cam (CentralCamera_default\<lparr>pose := \<lparr>SE3_R = eye3, SE3_t = [1, 0, 0]\<rparr>\<rparr>))
           = Inr Em
       \<and> F CentralCamera_default (Cam (CentralCamera_default\<lparr>pose := \<lparr>SE3_R = eye3, SE3_t = [1, 0, 0]\<rparr>\<rparr>))
           = Inr (matmul (matmul (transpose Ki) Em) Ki)"
proof -
  have k: "K (CentralCamera_default\<lparr>pose := \<lparr>SE3_R = eye3, SE3_t = [1, 0, 0]\<rparr>\<rparr>)
      = K CentralCamera_default"
    by (simp add: K_def)
  have d: "det3 (K CentralCamera_default) \<noteq> 0"
    by (simp add: K_default)
  from F_from_E_shared_K[OF k d] show ?thesis .
qed

section \<open>Guards of the homography from a plane (C7)\<close>

lemma H_rejects_negative_d: "d < 0 \<Longrightarrow> H cam T N d = Inl ValueError"
  by (simp add: H_def)

lemma H_rejects_normal_away:
  "0 \<le> d \<Longrightarrow> length N = 3 \<Longrightarrow> N ! 2 < 0 \<Longrightarrow> H cam T N d = Inl ValueError"
  by (simp add: H_def)

text \<open>
  C7: \<open>H(T, N, d)\<close> with \<open>d \<le> 0\<close> or \<open>N[2] < 0\<close> fails with the degenerate-input
  error before anything is computed. The guard is \<open>d < 0\<close>, although its message reads
  \<open>plane distance d must be > 0\<close>: at \<open>d = 0\<close>, with the identity motion and the normal
  \<open>(0, 0, 1)\<close>, both guards pass and the call fails only in the division \<open>1.0 / d\<close>,
  with \<open>ZeroDivisionError\<close> instead of the guard's \<open>ValueError\<close>.
\<close>

theorem H_zero_distance_passes_guard:
  "H CentralCamera_default SE3_id [0, 0, 1] 0 = Inl ZeroDivisionError
   \<and> H CentralCamera_default SE3_id [0, 0, 1] 0 \<noteq> Inl ValueError"
  by (simp add: H_def)

section \<open>Number of correspondences in the calibration (C6)\<close>

lemma points2C_loop_system:
  assumes "\<forall>(uv, X) \<in> set xs. length uv = 2 \<and> length X = 3"
  shows "points2C_loop xs A b
     = Inr (A @ concat (map (\<lambda>(uv, X). dlt_rows (uv ! 0) (uv ! 1) X) xs),
            b @ concat (map fst xs))"
  using assms
proof (induction xs arbitrary: A b)
  case Nil
  then show ?case by simp
next
  case (Cons x xs)
  obtain uv X where x: "x = (uv, X)" by (cases x)
  with Cons.prems have "length uv = 2" and lX: "length X = 3" by auto
  then obtain u v where uv: "uv = [u, v]" using len2 by blast
  from Cons.prems have rest: "\<forall>(uv, X) \<in> set xs. length uv = 2 \<and> length X = 3" by auto
  show ?case
    unfolding x uv using lX
    by (simp add: Let_def Cons.IH[OF rest])
qed

lemma transpose_rect:
  assumes "shape A = Some (m, n)"
  shows "length (transpose A) = n" and "\<forall>c \<in> set (transpose A). length c = m"
    and "transpose A = map (\<lambda>i. map (\<lambda>j. A ! j ! i) [0..<m]) [0..<n]"
proof -
  from shape_rows[OF assms] have l: "length A = m" and r: "\<forall>x\<in>set A. length x = n" by auto
  from assms have ne: "A \<noteq> []" by (auto simp: shape_def)
  have t: "transpose A = map (\<lambda>i. map (\<lambda>j. A ! j ! i) [0..<length A]) [0..<n]"
    by (rule transpose_rectangle) (use ne r in auto)
  show "length (transpose A) = n" by (simp add: t)
  show "\<forall>c \<in> set (transpose A). length c = m" by (auto simp: t l)
  show "transpose A = map (\<lambda>i. map (\<lambda>j. A ! j ! i) [0..<m]) [0..<n]" using t l by simp
qed

text \<open>
  C6, as stated: with fewer than 6 correspondences \<open>points2C\<close> fails. With one
  correspondence, the world point \<open>(0, 0, 0)\<close> seen at the pixel \<open>(0, 0)\<close>, the system has
  the 2 equations \<open>c[3] = 0\<close> and \<open>c[7] = 0\<close> in 11 unknowns; the least-squares solver
  returns its minimum-norm solution, the zero vector, and \<open>points2C\<close> returns a matrix
  and the residual.
\<close>

theorem points2C_one_point_counterexample:
  "points2C lstsq_orthogonal_rows [[0], [0], [0]] [[0], [0]]
     = Inr ([[0, 0, 0, 0], [0, 0, 0, 0], [0, 0, 0, 1]], [0, 0])"
  by (simp add: points2C_def lstsq_orthogonal_rows_def matvec_def dot_def dlt_rows_def)

text \<open>
  C6, amended: \<open>points2C\<close> does not check the number \<open>N\<close> of correspondences. For every
  \<open>N\<close>, also below 6, with \<open>P\<close> of shape \<open>3 x N\<close> and \<open>p\<close> of shape \<open>2 x N\<close>, it builds the
  system of \<open>2 N\<close> equations in 11 unknowns, the rows \<open>2 i\<close> and \<open>2 i + 1\<close> of \<open>A\<close> and
  of \<open>b\<close> from the correspondence \<open>i\<close>, and calls the least-squares solver on it once.
  If that call fails so does \<open>points2C\<close>; and whatever 11 unknowns \<open>c\<close> it returns,
  \<open>points2C\<close> returns them with a 1 appended as a 3x4 matrix, together with the
  residual \<open>A c - b\<close>. Nothing is assumed of the solver; a solution that has not 11
  entries cannot be reshaped.
\<close>

theorem points2C_any_number_of_points:
  assumes P: "shape P = Some (3, N)" and p: "shape p = Some (2, N)"
  shows "\<exists>A b. length A = 2 * N \<and> length b = 2 * N
     \<and> (\<forall>i<N. A ! (2 * i)
                 = [P ! 0 ! i, P ! 1 ! i, P ! 2 ! i, 1, 0, 0, 0, 0,
                    - (p ! 0 ! i) * (P ! 0 ! i), - (p ! 0 ! i) * (P ! 1 ! i), - (p ! 0 ! i) * (P ! 2 ! i)]
              \<and> A ! (2 * i + 1)
                 = [0, 0, 0, 0, P ! 0 ! i, P ! 1 ! i, P ! 2 ! i, 1,
                    - (p ! 1 ! i) * (P ! 0 ! i), - (p ! 1 ! i) * (P ! 1 ! i), - (p ! 1 ! i) * (P ! 2 ! i)]
              \<and> b ! (2 * i) = p ! 0 ! i \<and> b ! (2 * i + 1) = p ! 1 ! i)
     \<and> (case lstsq A b of
          Inl e \<Rightarrow> points2C lstsq P p = Inl e
        | Inr c \<Rightarrow>
            points2C lstsq P p
              = (if length c = 11
                 then Inr ([[c ! 0, c ! 1, c ! 2, c ! 3], [c ! 4, c ! 5, c ! 6, c ! 7],
                            [c ! 8, c ! 9, c ! 10, 1]],
                           map2 (-) (matvec A c) b)
                 else Inl ValueError))"
proof -
  let ?xs = "zip (transpose p) (transpose P)"
  let ?f = "\<lambda>(uv, X). dlt_rows (uv ! 0) (uv ! 1) X"
  let ?A = "concat (map ?f ?xs)"
  let ?b = "concat (map fst ?xs)"
  have u3: "[0..<3] = [0, 1, 2]" and u2: "[0..<2] = [0, 1]" by (simp_all add: upt_rec)
  have tP: "transpose P = map (\<lambda>i. [P ! 0 ! i, P ! 1 ! i, P ! 2 ! i]) [0..<N]"
    by (simp add: transpose_rect(3)[OF P] u3)
  have tp: "transpose p = map (\<lambda>i. [p ! 0 ! i, p ! 1 ! i]) [0..<N]"
    by (simp add: transpose_rect(3)[OF p] u2)
  have n: "length ?xs = N" by (simp add: tP tp)
  have xi: "?xs ! i = ([p ! 0 ! i, p ! 1 ! i], [P ! 0 ! i, P ! 1 ! i, P ! 2 ! i])" if "i < N" for i
    using that by (simp add: tP tp)
  have ok: "\<forall>(uv, X) \<in> set ?xs. length uv = 2 \<and> length X = 3"
    using transpose_rect(2)[OF P] transpose_rect(2)[OF p]
    by (auto dest: set_zip_leftD set_zip_rightD)
  have lp: "points2C_loop ?xs [] [] = Inr (?A, ?b)"
    using points2C_loop_system[OF ok, of "[]" "[]"] by simp
  have f2: "\<forall>x\<in>set ?xs. length (?f x) = 2" by (auto simp: dlt_rows_def)
  have g2: "\<forall>x\<in>set ?xs. length (fst x) = 2" using ok by auto
  have lA: "length ?A = 2 * N" using concat_pairs(1)[OF f2] n by simp
  have lb: "length ?b = 2 * N" using concat_pairs(1)[OF g2] n by simp
  have rows: "?A ! (2 * i)
                 = [P ! 0 ! i, P ! 1 ! i, P ! 2 ! i, 1, 0, 0, 0, 0,
                    - (p ! 0 ! i) * (P ! 0 ! i), - (p ! 0 ! i) * (P ! 1 ! i), - (p ! 0 ! i) * (P ! 2 ! i)]
              \<and> ?A ! (2 * i + 1)
                 = [0, 0, 0, 0, P ! 0 ! i, P ! 1 ! i, P ! 2 ! i, 1,
                    - (p ! 1 ! i) * (P ! 0 ! i), - (p ! 1 ! i) * (P ! 1 ! i), - (p ! 1 ! i) * (P ! 2 ! i)]
              \<and> ?b ! (2 * i) = p ! 0 ! i \<and> ?b ! (2 * i + 1) = p ! 1 ! i" if i: "i < N" for i
  proof -
    from i n have i': "i < length ?xs" by simp
    from concat_pairs(2)[OF f2 i'] concat_pairs(2)[OF g2 i'] show ?thesis
      by (simp add: xi[OF i] dlt_rows_def)
  qed
  have res: "(case lstsq ?A ?b of
          Inl e \<Rightarrow> points2C lstsq P p = Inl e
        | Inr c \<Rightarrow>
            points2C lstsq P p
              = (if length c = 11
                 then Inr ([[c ! 0, c ! 1, c ! 2, c ! 3], [c ! 4, c ! 5, c ! 6, c ! 7],
                            [c ! 8, c ! 9, c ! 10, 1]],
                           map2 (-) (matvec ?A c) ?b)
                 else Inl ValueError))"
  proof (cases "lstsq ?A ?b")
    case (Inl e)
    then show ?thesis by (simp add: points2C_def lp)
  next
    case (Inr c)
    show ?thesis
    proof (cases "length c = 11")
      case True
      then obtain c0 c1 c2 c3 c4 c5 c6 c7 c8 c9 c10
        where cc: "c = [c0, c1, c2, c3, c4, c5, c6, c7, c8, c9, c10]"
        by (auto simp: eval_nat_numeral length_Suc_conv)
      have "points2C lstsq P p
              = Inr ([[c ! 0, c ! 1, c ! 2, c ! 3], [c ! 4, c ! 5, c ! 6, c ! 7],
                      [c ! 8, c ! 9, c ! 10, 1]],
                     map2 (-) (matvec ?A c) ?b)"
        using Inr by (simp add: points2C_def lp) (simp add: cc)
      with Inr True show ?thesis by simp
    next
      case False
      with Inr show ?thesis by (simp add: points2C_def lp)
    qed
  qed
  from lA lb rows res show ?thesis by blast
qed

text \<open>
  Two correspondences: \<open>(1, 0, 0)\<close> seen at \<open>(1, 0)\<close> and \<open>(-1, 0, 0)\<close> seen at \<open>(0, 0)\<close>.
  The 4 rows of the system are orthogonal to each other; its minimum-norm solution
  leaves no residual, and the matrix returned projects both points where they were seen.
\<close>

theorem points2C_any_number_of_points_witness:
  "points2C lstsq_orthogonal_rows [[1, - 1], [0, 0], [0, 0]] [[1, 0], [0, 0]]
     = Inr ([[1 / 3, 0, 0, 1 / 3], [0, 0, 0, 0], [- 1 / 3, 0, 0, 1]], [0, 0, 0, 0])"
proof -
  let ?P = "[[1, - 1], [0, 0], [0, 0 :: real]]"
  let ?p = "[[1, 0], [0, 0 :: real]]"
  have P: "shape ?P = Some (3, 2)" by (simp add: shape_def)
  have p: "shape ?p = Some (2, 2)" by (simp add: shape_def)
  from points2C_any_number_of_points[OF P p, of lstsq_orthogonal_rows]
  obtain A b where lA: "length A = 4" and lb: "length b = 4"
    and rows: "\<forall>i<2. A ! (2 * i)
                 = [?P ! 0 ! i, ?P ! 1 ! i, ?P ! 2 ! i, 1, 0, 0, 0, 0,
                    - (?p ! 0 ! i) * (?P ! 0 ! i), - (?p ! 0 ! i) * (?P ! 1 ! i), - (?p ! 0 ! i) * (?P ! 2 ! i)]
              \<and> A ! (2 * i + 1)
                 = [0, 0, 0, 0, ?P ! 0 ! i, ?P ! 1 ! i, ?P ! 2 ! i, 1,
                    - (?p ! 1 ! i) * (?P ! 0 ! i), - (?p ! 1 ! i) * (?P ! 1 ! i), - (?p ! 1 ! i) * (?P ! 2 ! i)]
              \<and> b ! (2 * i) = ?p ! 0 ! i \<and> b ! (2 * i + 1) = ?p ! 1 ! i"
    and res: "(case lstsq_orthogonal_rows A b of
          Inl e \<Rightarrow> points2C lstsq_orthogonal_rows ?P ?p = Inl e
        | Inr c \<Rightarrow>
            points2C lstsq_orthogonal_rows ?P ?p
              = (if length c = 11
                 then Inr ([[c ! 0, c ! 1, c ! 2, c ! 3], [c ! 4, c ! 5, c ! 6, c ! 7],
                            [c ! 8, c ! 9, c ! 10, 1]],
                           map2 (-) (matvec A c) b)
                 else Inl ValueError))"
    by auto
  from lA obtain a0 a1 a2 a3 where A: "A = [a0, a1, a2, a3]" using len4 by blast
  from lb obtain b0 b1 b2 b3 where b: "b = [b0, b1, b2, b3]" using len4 by blast
  from rows have r0: "A ! 0 = [1, 0, 0, 1, 0, 0, 0, 0, - 1, 0, 0]"
    and r1: "A ! 1 = [0, 0, 0, 0, 1, 0, 0, 1, 0, 0, 0]"
    and e0: "b ! 0 = 1" and e1: "b ! 1 = 0"
    by (auto dest: spec[of _ 0])
  from rows have r2: "A ! 2 = [- 1, 0, 0, 1, 0, 0, 0, 0, 0, 0, 0]"
    and r3: "A ! 3 = [0, 0, 0, 0, - 1, 0, 0, 1, 0, 0, 0]"
    and e2: "b ! 2 = 0" and e3: "b ! 3 = 0"
    by (auto dest: spec[of _ 1])
  have A': "A = [[1, 0, 0, 1, 0, 0, 0, 0, - 1, 0, 0], [0, 0, 0, 0, 1, 0, 0, 1, 0, 0, 0],
                 [- 1, 0, 0, 1, 0, 0, 0, 0, 0, 0, 0], [0, 0, 0, 0, - 1, 0, 0, 1, 0, 0, 0]]"
    using r0 r1 r2 r3 unfolding A by simp
  have b': "b = [1, 0, 0, 0]" using e0 e1 e2 e3 unfolding b by simp
  have c: "lstsq_orthogonal_rows A b = Inr [1 / 3, 0, 0, 1 / 3, 0, 0, 0, 0, - 1 / 3, 0, 0]"
    unfolding A' b' by (simp add: lstsq_orthogonal_rows_def matvec_def dot_def)
  from res show ?thesis
    unfolding c by (simp add: A' b' matvec_def dot_def)
qed

section \<open>Projection: shapes and the entries of the result\<close>

lemma matmul_row: "i < length A \<Longrightarrow> matmul A B ! i = map (dot (A ! i)) (transpose B)"
  by (simp add: matmul_def)

lemma shape_matmul:
  assumes "A \<noteq> []" "shape B = Some (m, n)"
  shows "shape (matmul A B) = Some (length A, n)"
  using assms transpose_rect(1)[OF assms(2)]
  by (cases A) (auto simp: shape_def matmul_def)

lemma C_row2:
  assumes "pose_ok T"
  shows "C cam (Some T) ! 2 = SE3_A (SE3_inv T) ! 2" "length (C cam (Some T)) = 3"
proof -
  from assms obtain a b c d e f g h i where R: "SE3_R T = [[a, b, c], [d, e, f], [g, h, i]]"
    using shape33 unfolding pose_ok_def by blast
  from assms obtain x y z where t: "SE3_t T = [x, y, z]" using len3 unfolding pose_ok_def by blast
  show "C cam (Some T) ! 2 = SE3_A (SE3_inv T) ! 2"
    by (simp add: C_def K_def P0_def SE3_A_def SE3_inv_def R t matmul_def matvec_def dot_def)
  show "length (C cam (Some T)) = 3"
    by (simp add: C_def K_def matmul_def)
qed


lemma shape_append_row:
  assumes "shape A = Some (m, n)" "length r = n"
  shows "shape (A @ [r]) = Some (Suc m, n)"
  using assms by (cases A) (auto simp: shape_def split: if_splits)

lemma shape_hd: "shape A = Some (m, n) \<Longrightarrow> length (hd A) = n"
  by (cases A) (auto simp: shape_def split: if_splits)

lemma SE3_A_length: "pose_ok T \<Longrightarrow> length (SE3_A T) = 4"
  by (auto simp: SE3_A_def pose_ok_def dest: shape_rows)

lemma homogeneous_points_ok:
  assumes "shape P = Some (3, N) \<or> shape P = Some (4, N)"
    and "case objpose of None \<Rightarrow> True | Some To \<Rightarrow> pose_ok To"
  shows "\<exists>Pw. homogeneous_points P objpose = Inr Pw \<and> shape Pw = Some (4, N)"
proof -
  let ?P1 = "if length P = 3 then e2h P else P"
  have s1: "shape ?P1 = Some (4, N)"
    using assms(1)
  proof
    assume a: "shape P = Some (3, N)"
    then have "length P = 3" by (auto dest: shape_rows)
    moreover have "shape (e2h P) = Some (Suc 3, N)"
      unfolding e2h_def by (rule shape_append_row[OF a]) (simp add: shape_hd[OF a])
    ultimately show ?thesis by simp
  next
    assume a: "shape P = Some (4, N)"
    then have "length P = 4" by (auto dest: shape_rows)
    with a show ?thesis by simp
  qed
  then have l1: "length ?P1 = 4" by (auto dest: shape_rows)
  show ?thesis
  proof (cases objpose)
    case None
    then show ?thesis using s1 by (simp add: homogeneous_points_def)
  next
    case (Some To)
    with assms(2) have ok: "pose_ok To" by simp
    have "SE3_A To \<noteq> []" using SE3_A_length[OF ok] by auto
    from shape_matmul[OF this s1] SE3_A_length[OF ok]
    show ?thesis using Some l1 by (simp add: homogeneous_points_def Let_def)
  qed
qed

lemma transpose_nth:
  assumes "shape B = Some (m, n)" "j < n"
  shows "transpose B ! j = map (\<lambda>r. r ! j) B"
proof -
  have "transpose B ! j = map (\<lambda>k. B ! k ! j) [0..<m]"
    using transpose_rect(3)[OF assms(1)] assms(2) by simp
  also have "\<dots> = map (\<lambda>r. r ! j) B"
    using shape_rows(1)[OF assms(1)] by (simp add: list_eq_iff_nth_eq)
  finally show ?thesis .
qed

lemma matmul_entry:
  assumes "i < length A" "shape B = Some (m, n)" "j < n"
  shows "matmul A B ! i ! j = dot (A ! i) (map (\<lambda>r. r ! j) B)"
    and "length (matmul A B ! i) = n"
  using assms transpose_rect(1)[OF assms(2)] transpose_nth[OF assms(2,3)]
  by (simp_all add: matmul_def)

lemma pose_ok_inv: "pose_ok T \<Longrightarrow> pose_ok (SE3_inv T)"
proof -
  assume a: "pose_ok T"
  from a obtain a b c d e f g h i where R: "SE3_R T = [[a, b, c], [d, e, f], [g, h, i]]"
    using shape33 unfolding pose_ok_def by blast
  from a obtain x y z where t: "SE3_t T = [x, y, z]" using len3 unfolding pose_ok_def by blast
  show ?thesis by (simp add: pose_ok_def SE3_inv_def R t shape_def matvec_def)
qed

lemma depth_is_row2:
  assumes "pose_ok T"
  shows "image_homogeneous cam T Pw ! 2 = camera_depth T Pw"
  using C_row2[OF assms, of cam] SE3_A_length[OF pose_ok_inv[OF assms]]
  by (simp add: image_homogeneous_def camera_depth_def matmul_def)

lemma project_point_result:
  assumes hp: "homogeneous_points P objpose = Inr Pw" and sh: "shape Pw = Some (4, N)"
    and T: "T = (case pose' of None \<Rightarrow> pose cam | Some T1 \<Rightarrow> T1)" and ok: "pose_ok T"
  defines "x \<equiv> image_homogeneous cam T Pw"
  shows "\<exists>uv. project_point cam eps P pose' objpose behind vis
             = Inr (uv, if vis then Some (visible_flags cam uv) else None)
          \<and> length uv = 2 \<and> length (uv ! 0) = N \<and> length (uv ! 1) = N
          \<and> (\<forall>i<N. uv ! 0 ! i = noise_at cam eps 0 i
                (fdiv (Fin (x ! 0 ! i)) (if behind \<and> x ! 2 ! i < 0 then NaN else Fin (x ! 2 ! i))))
          \<and> (\<forall>i<N. uv ! 1 ! i = noise_at cam eps 1 i
                (fdiv (Fin (x ! 1 ! i)) (if behind \<and> x ! 2 ! i < 0 then NaN else Fin (x ! 2 ! i))))"
proof -
  have l4: "length Pw = 4" using sh by (auto dest: shape_rows)
  have lx: "length (x ! 0) = N" "length (x ! 1) = N" "length (x ! 2) = N"
    using C_row2(2)[OF ok, of cam] transpose_rect(1)[OF sh]
    by (simp_all add: x_def image_homogeneous_def matmul_def)
  let ?x2 = "map (\<lambda>z. if behind \<and> z < 0 then NaN else Fin z) (x ! 2)"
  let ?uv = "[map2 fdiv (map Fin (x ! 0)) ?x2, map2 fdiv (map Fin (x ! 1)) ?x2]"
  let ?uv' = "add_noise_distortion cam eps ?uv"
  have pp: "project_point cam eps P pose' objpose behind vis
             = Inr (?uv', if vis then Some (visible_flags cam ?uv') else None)"
    using hp l4 by (simp add: project_point_def Let_def T x_def image_homogeneous_def)
  have l: "length ?uv' = 2" "length (?uv' ! 0) = N" "length (?uv' ! 1) = N"
    using lx by (auto simp: add_noise_distortion_def split: option.splits)
  have e0: "\<forall>i<N. ?uv' ! 0 ! i = noise_at cam eps 0 i
                (fdiv (Fin (x ! 0 ! i)) (if behind \<and> x ! 2 ! i < 0 then NaN else Fin (x ! 2 ! i)))"
    using lx by (auto simp: add_noise_distortion_def noise_at_def split: option.splits)
  have e1: "\<forall>i<N. ?uv' ! 1 ! i = noise_at cam eps 1 i
                (fdiv (Fin (x ! 1 ! i)) (if behind \<and> x ! 2 ! i < 0 then NaN else Fin (x ! 2 ! i)))"
    using lx by (auto simp: add_noise_distortion_def noise_at_def split: option.splits)
  from pp l e0 e1 show ?thesis by blast
qed

lemma fge_not_nan: "fge a b \<Longrightarrow> \<not> isnan a"
  by (cases a; cases b) simp_all

lemma noise_at_NaN: "noise_at cam eps k i NaN = NaN"
  by (simp add: noise_at_def split: option.splits)

lemma noise_at_inf:
  "noise_at cam eps k i PInf = PInf" "noise_at cam eps k i NInf = NInf"
  by (simp_all add: noise_at_def split: option.splits)

lemma visible_flags_nth:
  assumes "length (uv ! 0) = N" "length (uv ! 1) = N" "i < N"
  shows "visible_flags cam uv ! i
     = (\<not> isnan (uv ! 0 ! i) \<and> fge (uv ! 0 ! i) (Fin 0) \<and> fge (uv ! 1 ! i) (Fin 0)
        \<and> flt (uv ! 0 ! i) (Fin (nu cam)) \<and> flt (uv ! 1 ! i) (Fin (nv cam)))"
  using assms by (simp add: visible_flags_def)

section \<open>Points behind the camera (C2)\<close>

text \<open>
  C2: \<open>project_point\<close> with \<open>behind=True\<close>, for points \<open>P\<close> of shape \<open>3 x N\<close> or
  \<open>4 x N\<close> and well-formed poses, returns a \<open>2 x N\<close> array. For every point whose depth in
  the camera frame is negative both coordinates of its column are \<open>nan\<close> and, with
  \<open>visibility=True\<close>, its flag is \<open>False\<close>. The flag of a point is \<open>True\<close> exactly when
  neither coordinate is \<open>nan\<close> and the coordinates lie in \<open>[0, nu) x [0, nv)\<close>.
\<close>

theorem project_point_behind_camera:
  assumes "shape P = Some (3, N) \<or> shape P = Some (4, N)"
    and "case objpose of None \<Rightarrow> True | Some To \<Rightarrow> pose_ok To"
    and "T = (case pose' of None \<Rightarrow> pose cam | Some T1 \<Rightarrow> T1)" and "pose_ok T"
  shows "\<exists>Pw uv. homogeneous_points P objpose = Inr Pw
      \<and> project_point cam eps P pose' objpose True vis
          = Inr (uv, if vis then Some (visible_flags cam uv) else None)
      \<and> length uv = 2 \<and> length (uv ! 0) = N \<and> length (uv ! 1) = N
      \<and> length (visible_flags cam uv) = N
      \<and> (\<forall>i<N. camera_depth T Pw ! i < 0 \<longrightarrow>
            uv ! 0 ! i = NaN \<and> uv ! 1 ! i = NaN \<and> \<not> visible_flags cam uv ! i)
      \<and> (\<forall>i<N. visible_flags cam uv ! i \<longleftrightarrow>
            \<not> isnan (uv ! 0 ! i) \<and> \<not> isnan (uv ! 1 ! i)
            \<and> fge (uv ! 0 ! i) (Fin 0) \<and> flt (uv ! 0 ! i) (Fin (nu cam))
            \<and> fge (uv ! 1 ! i) (Fin 0) \<and> flt (uv ! 1 ! i) (Fin (nv cam)))"
proof -
  from homogeneous_points_ok[OF assms(1,2)] obtain Pw
    where hp: "homogeneous_points P objpose = Inr Pw" and sh: "shape Pw = Some (4, N)"
    by blast
  from project_point_result[OF hp sh assms(3,4), of eps True vis] obtain uv where
    pp: "project_point cam eps P pose' objpose True vis
          = Inr (uv, if vis then Some (visible_flags cam uv) else None)"
    and l: "length uv = 2" "length (uv ! 0) = N" "length (uv ! 1) = N"
    and e0: "\<forall>i<N. uv ! 0 ! i = noise_at cam eps 0 i
          (fdiv (Fin (image_homogeneous cam T Pw ! 0 ! i))
             (if True \<and> image_homogeneous cam T Pw ! 2 ! i < 0 then NaN
              else Fin (image_homogeneous cam T Pw ! 2 ! i)))"
    and e1: "\<forall>i<N. uv ! 1 ! i = noise_at cam eps 1 i
          (fdiv (Fin (image_homogeneous cam T Pw ! 1 ! i))
             (if True \<and> image_homogeneous cam T Pw ! 2 ! i < 0 then NaN
              else Fin (image_homogeneous cam T Pw ! 2 ! i)))"
    by blast
  note d = depth_is_row2[OF assms(4), of cam Pw]
  have lv: "length (visible_flags cam uv) = N"
    using l by (simp add: visible_flags_def)
  have nan: "\<forall>i<N. camera_depth T Pw ! i < 0 \<longrightarrow>
            uv ! 0 ! i = NaN \<and> uv ! 1 ! i = NaN \<and> \<not> visible_flags cam uv ! i"
  proof (intro allI impI)
    fix i assume i: "i < N" and neg: "camera_depth T Pw ! i < 0"
    from e0 i neg have u: "uv ! 0 ! i = NaN" by (simp add: d noise_at_NaN)
    from e1 i neg have v: "uv ! 1 ! i = NaN" by (simp add: d noise_at_NaN)
    from u v show "uv ! 0 ! i = NaN \<and> uv ! 1 ! i = NaN \<and> \<not> visible_flags cam uv ! i"
      by (simp add: visible_flags_nth[OF l(2,3) i])
  qed
  have vis: "\<forall>i<N. visible_flags cam uv ! i \<longleftrightarrow>
            \<not> isnan (uv ! 0 ! i) \<and> \<not> isnan (uv ! 1 ! i)
            \<and> fge (uv ! 0 ! i) (Fin 0) \<and> flt (uv ! 0 ! i) (Fin (nu cam))
            \<and> fge (uv ! 1 ! i) (Fin 0) \<and> flt (uv ! 1 ! i) (Fin (nv cam))"
    using fge_not_nan by (auto simp: visible_flags_nth[OF l(2,3)])
  from hp pp l lv nan vis show ?thesis by blast
qed

theorem project_point_behind_camera_witness:
  "\<exists>uv. project_point CentralCamera_default (\<lambda>i j. 0) [[0, 3 / 10], [0, 4 / 10], [- 1, 2]]
            None None True True = Inr (uv, Some (visible_flags CentralCamera_default uv))
     \<and> camera_depth SE3_id [[0, 3 / 10], [0, 4 / 10], [- 1, 2], [1, 1]] ! 0 < 0
     \<and> uv ! 0 ! 0 = NaN \<and> uv ! 1 ! 0 = NaN
     \<and> \<not> visible_flags CentralCamera_default uv ! 0"
proof -
  let ?P = "[[0, 3 / 10], [0, 4 / 10], [- 1, 2 :: real]]"
  have s: "shape ?P = Some (3, 2) \<or> shape ?P = Some (4, 2)" by (simp add: shape_def)
  have o: "case (None :: real SE3 option) of None \<Rightarrow> True | Some To \<Rightarrow> pose_ok To" by simp
  have T: "SE3_id = (case (None :: real SE3 option) of None \<Rightarrow> pose CentralCamera_default
      | Some T1 \<Rightarrow> T1)"
    by (simp add: CentralCamera_default_def)
  have ok: "pose_ok SE3_id" by (simp add: pose_ok_def SE3_id_def eye3_def shape_def)
  have hp: "homogeneous_points ?P None = Inr [[0, 3 / 10], [0, 4 / 10], [- 1, 2], [1, 1]]"
    by (simp add: homogeneous_points_def e2h_def)
  have d: "camera_depth SE3_id [[0, 3 / 10], [0, 4 / 10], [- 1, 2], [1, 1]] ! 0 < 0"
    by (simp add: camera_depth_def SE3_id_def SE3_inv_def SE3_A_def eye3_def matmul_def
        matvec_def dot_def)
  from project_point_behind_camera[OF s o T ok, of "\<lambda>i j. 0" True] hp d
  show ?thesis by auto
qed

section \<open>Points at depth zero (C10)\<close>

text \<open>
  C10, as stated: at depth exactly zero the division gives non-\<open>nan\<close> infinite
  coordinates. For the default camera and the point \<open>(0, 1, 0)\<close>, at depth zero, the
  first coordinate is \<open>0 / 0\<close>, that is \<open>nan\<close>; for the camera centre \<open>(0, 0, 0)\<close>
  both coordinates are \<open>nan\<close>.
\<close>

theorem project_point_zero_depth_counterexample:
  "camera_depth SE3_id [[0], [1], [0], [1]] = [0]
   \<and> project_point CentralCamera_default (\<lambda>i j. 0) [[0], [1], [0]] None None True False
       = Inr ([[NaN], [PInf]], None)
   \<and> camera_depth SE3_id [[0], [0], [0], [1]] = [0]
   \<and> project_point CentralCamera_default (\<lambda>i j. 0) [[0], [0], [0]] None None True False
       = Inr ([[NaN], [NaN]], None)"
  by (simp add: project_point_def homogeneous_points_def e2h_def C_def K_def
      CentralCamera_default_def SE3_id_def SE3_inv_def SE3_A_def eye3_def P0_def matmul_def
      matvec_def dot_def add_noise_distortion_def camera_depth_def)

text \<open>
  C10, amended: for a point whose depth in the camera frame is exactly zero,
  \<open>project_point\<close> with \<open>behind=True\<close> does not write the \<open>nan\<close> marker (the test is
  \<open>x[2] < 0\<close>) and divides by zero: each output coordinate is \<open>inf\<close> or \<open>-inf\<close>, by the
  sign of its homogeneous numerator \<open>x[0]\<close> or \<open>x[1]\<close>, when that numerator is not
  zero, and \<open>nan\<close> when it is zero.
\<close>

theorem project_point_zero_depth:
  assumes "shape P = Some (3, N) \<or> shape P = Some (4, N)"
    and "case objpose of None \<Rightarrow> True | Some To \<Rightarrow> pose_ok To"
    and "T = (case pose' of None \<Rightarrow> pose cam | Some T1 \<Rightarrow> T1)" and "pose_ok T"
  shows "\<exists>Pw uv. homogeneous_points P objpose = Inr Pw
      \<and> project_point cam eps P pose' objpose True vis
          = Inr (uv, if vis then Some (visible_flags cam uv) else None)
      \<and> (\<forall>i<N. camera_depth T Pw ! i = 0 \<longrightarrow>
            uv ! 0 ! i = (if 0 < image_homogeneous cam T Pw ! 0 ! i then PInf
                          else if image_homogeneous cam T Pw ! 0 ! i < 0 then NInf else NaN)
          \<and> uv ! 1 ! i = (if 0 < image_homogeneous cam T Pw ! 1 ! i then PInf
                          else if image_homogeneous cam T Pw ! 1 ! i < 0 then NInf else NaN))"
proof -
  from homogeneous_points_ok[OF assms(1,2)] obtain Pw
    where hp: "homogeneous_points P objpose = Inr Pw" and sh: "shape Pw = Some (4, N)"
    by blast
  from project_point_result[OF hp sh assms(3,4), of eps True vis] obtain uv where
    pp: "project_point cam eps P pose' objpose True vis
          = Inr (uv, if vis then Some (visible_flags cam uv) else None)"
    and e0: "\<forall>i<N. uv ! 0 ! i = noise_at cam eps 0 i
          (fdiv (Fin (image_homogeneous cam T Pw ! 0 ! i))
             (if True \<and> image_homogeneous cam T Pw ! 2 ! i < 0 then NaN
              else Fin (image_homogeneous cam T Pw ! 2 ! i)))"
    and e1: "\<forall>i<N. uv ! 1 ! i = noise_at cam eps 1 i
          (fdiv (Fin (image_homogeneous cam T Pw ! 1 ! i))
             (if True \<and> image_homogeneous cam T Pw ! 2 ! i < 0 then NaN
              else Fin (image_homogeneous cam T Pw ! 2 ! i)))"
    by blast
  note d = depth_is_row2[OF assms(4), of cam Pw]
  have "\<forall>i<N. camera_depth T Pw ! i = 0 \<longrightarrow>
            uv ! 0 ! i = (if 0 < image_homogeneous cam T Pw ! 0 ! i then PInf
                          else if image_homogeneous cam T Pw ! 0 ! i < 0 then NInf else NaN)
          \<and> uv ! 1 ! i = (if 0 < image_homogeneous cam T Pw ! 1 ! i then PInf
                          else if image_homogeneous cam T Pw ! 1 ! i < 0 then NInf else NaN)"
    using e0 e1 by (simp add: d noise_at_NaN noise_at_inf)
  with hp pp show ?thesis by blast
qed

theorem project_point_zero_depth_witness:
  "\<exists>uv. project_point CentralCamera_default (\<lambda>i j. 0) [[1, 0], [- 1, 1], [0, 0]]
            None None True False = Inr (uv, None)
     \<and> camera_depth SE3_id [[1, 0], [- 1, 1], [0, 0], [1, 1]] = [0, 0]
     \<and> uv ! 0 ! 0 = PInf \<and> uv ! 1 ! 0 = NInf \<and> uv ! 0 ! 1 = NaN \<and> uv ! 1 ! 1 = PInf"
proof -
  let ?P = "[[1, 0], [- 1, 1], [0, 0 :: real]]"
  let ?Pw = "[[1, 0], [- 1, 1], [0, 0], [1, 1 :: real]]"
  have s: "shape ?P = Some (3, 2) \<or> shape ?P = Some (4, 2)" by (simp add: shape_def)
  have o: "case (None :: real SE3 option) of None \<Rightarrow> True | Some To \<Rightarrow> pose_ok To" by simp
  have T: "SE3_id = (case (None :: real SE3 option) of None \<Rightarrow> pose CentralCamera_default
      | Some T1 \<Rightarrow> T1)"
    by (simp add: CentralCamera_default_def)
  have ok: "pose_ok SE3_id" by (simp add: pose_ok_def SE3_id_def eye3_def shape_def)
  have hp: "homogeneous_points ?P None = Inr ?Pw"
    by (simp add: homogeneous_points_def e2h_def)
  have d: "camera_depth SE3_id ?Pw = [0, 0]"
    by (simp add: camera_depth_def SE3_id_def SE3_inv_def SE3_A_def eye3_def matmul_def
        matvec_def dot_def)
  have x: "image_homogeneous CentralCamera_default SE3_id ?Pw = [[800, 0], [- 800, 800], [0, 0]]"
    by (simp add: image_homogeneous_def C_def K_def CentralCamera_default_def SE3_id_def
        SE3_inv_def SE3_A_def eye3_def P0_def matmul_def matvec_def dot_def)
  from project_point_zero_depth[OF s o T ok, of "\<lambda>i j. 0" False] hp d x
  show ?thesis by (auto simp: nth_Cons')
qed

section \<open>Image Jacobian: shape, order and closed form (C9)\<close>

lemma visjac_point_closed:
  assumes "z \<noteq> 0"
  shows "visjac_point (K cam) Ki z [u, v] = map (map Fin) (jacobian_closed_form (K cam) Ki u v z)"
  using assms
  by (simp add: visjac_point_def jacobian_closed_form_def K_def fmatmul_def fdot_def matmul_def
      dot_def Let_def)

lemma transpose_two_rows:
  assumes "length us = N" "length vs = N"
  shows "length (transpose [us, vs]) = N"
    and "i < N \<Longrightarrow> transpose [us, vs] ! i = [us ! i, vs ! i]"
proof -
  have sh: "shape [us, vs] = Some (2, N)" using assms by (simp add: shape_def)
  show "length (transpose [us, vs]) = N" by (rule transpose_rect(1)[OF sh])
  have u: "[0..<2] = [0, Suc 0]" by (simp add: upt_rec)
  show "i < N \<Longrightarrow> transpose [us, vs] ! i = [us ! i, vs ! i]"
    by (simp add: transpose_rect(3)[OF sh] u)
qed

lemma visjac_point_rows: "length (visjac_point (K cam) Ki z p) = 2"
  by (simp add: visjac_point_def fmatmul_def K_def Let_def)

lemma visjac_point_cols: "r \<in> set (visjac_point Km Ki z p) \<Longrightarrow> length r = 6"
  by (auto simp: visjac_point_def fmatmul_def Let_def)

lemma two_rows: "length xs = 2 \<Longrightarrow> [xs ! 0, xs ! 1] = xs"
  by (auto dest!: len2)

lemma jacobian_closed_form_entries:
  fixes u v Zd :: real
  assumes "fu cam / rhou cam \<noteq> 0" "fv cam / rhov cam \<noteq> 0" "inv3 (K cam) = Inr Ki"
  defines "a \<equiv> fu cam / rhou cam" and "b \<equiv> fv cam / rhov cam"
  defines "x \<equiv> (u - u0 cam) / a" and "y \<equiv> (v - v0 cam) / b"
  shows "jacobian_closed_form (K cam) Ki u v Zd =
     [[a * (- 1 / Zd), 0, a * (x / Zd), a * (x * y), a * (- (1 + x\<^sup>2)), a * y],
      [0, b * (- 1 / Zd), b * (y / Zd), b * (1 + y\<^sup>2), b * (- x * y), b * (- x)]]"
proof -
  have a0: "a \<noteq> 0" and b0: "b \<noteq> 0" using assms(1,2) by (simp_all add: a_def b_def)
  have Kf: "K cam = [[a, 0, u0 cam], [0, b, v0 cam], [0, 0, 1]]"
    by (simp add: K_def a_def b_def)
  have Ki: "Ki = [[1 / a, 0, - u0 cam / a], [0, 1 / b, - v0 cam / b], [0, 0, 1]]"
    using assms(3) a0 b0 unfolding Kf
    by (auto simp: inv3_def field_simps split: if_splits)
  have xy: "matvec Ki [u, v, 1] ! 0 = x" "matvec Ki [u, v, 1] ! 1 = y"
    unfolding Ki by (simp_all add: matvec_def dot_def x_def y_def diff_divide_distrib)
  show ?thesis
    unfolding jacobian_closed_form_def xy Kf
    by (simp add: matmul_def dot_def)
qed

text \<open>
  C9: for image points \<open>uv\<close> of shape \<open>2 x N\<close>, \<open>visjac_p\<close> fails when the length of
  \<open>Z\<close> is neither 1 nor \<open>N\<close>. When it is 1 or \<open>N\<close> (and \<open>K\<close> is invertible) it returns
  a matrix with \<open>2 N\<close> rows of 6 entries whose rows \<open>2 i\<close> and \<open>2 i + 1\<close> are the
  Jacobian of point \<open>i\<close> at its depth, the single depth being used for every point; for
  a depth that is not zero this row pair is the closed form
  \<open>K[:2,:2] @ [[-1/Z, 0, x/Z, xy, -(1+x^2), y], [0, -1/Z, y/Z, 1+y^2, -xy, -x]]\<close> at
  \<open>(x, y) = inv(K) @ [u; v; 1]\<close>.
\<close>

theorem visjac_p_contract:
  assumes us: "length us = N" and vs: "length vs = N"
  shows "(length Z \<noteq> 1 \<and> length Z \<noteq> N \<longrightarrow> visjac_p cam [us, vs] Z = Inl ValueError)
     \<and> ((length Z = 1 \<or> length Z = N) \<and> det3 (K cam) \<noteq> 0 \<longrightarrow>
          (\<exists>L Ki. inv3 (K cam) = Inr Ki \<and> visjac_p cam [us, vs] Z = Inr L
             \<and> length L = 2 * N \<and> (\<forall>k < 2 * N. length (L ! k) = 6)
             \<and> (\<forall>i<N. [L ! (2 * i), L ! (2 * i + 1)]
                    = visjac_point (K cam) Ki (if length Z = 1 then Z ! 0 else Z ! i)
                        [us ! i, vs ! i])
             \<and> (\<forall>i<N. (if length Z = 1 then Z ! 0 else Z ! i) \<noteq> 0 \<longrightarrow>
                    [L ! (2 * i), L ! (2 * i + 1)]
                    = map (map Fin) (jacobian_closed_form (K cam) Ki (us ! i) (vs ! i)
                        (if length Z = 1 then Z ! 0 else Z ! i)))))"
proof (intro conjI impI)
  assume "length Z \<noteq> 1 \<and> length Z \<noteq> N"
  then show "visjac_p cam [us, vs] Z = Inl ValueError"
    using us vs by (simp add: visjac_p_def)
next
  assume a: "(length Z = 1 \<or> length Z = N) \<and> det3 (K cam) \<noteq> 0"
  define Ki where "Ki = map (map (\<lambda>x. x / det3 (K cam))) (adj3 (K cam))"
  define Z1 where "Z1 = (if length Z = 1 then replicate N (Z ! 0) else Z)"
  define f where "f = (\<lambda>(z, p). visjac_point (K cam) Ki z p)"
  define xs where "xs = zip Z1 (transpose [us, vs])"
  define L where "L = concat (map f xs)"
  have inv: "inv3 (K cam) = Inr Ki" using a by (simp add: inv3_def Ki_def)
  have lZ1: "length Z1 = N" using a by (auto simp: Z1_def)
  have Z1n: "\<And>i. i < N \<Longrightarrow> Z1 ! i = (if length Z = 1 then Z ! 0 else Z ! i)"
    by (simp add: Z1_def)
  have lxs: "length xs = N"
    using lZ1 transpose_two_rows(1)[OF us vs] by (simp add: xs_def)
  have xsn: "\<And>i. i < N \<Longrightarrow> xs ! i = (if length Z = 1 then Z ! 0 else Z ! i, [us ! i, vs ! i])"
    using lZ1 transpose_two_rows[OF us vs] Z1n by (simp add: xs_def)
  have f2: "\<forall>x\<in>set xs. length (f x) = 2"
    by (auto simp: f_def visjac_point_rows)
  have vp: "visjac_p cam [us, vs] Z = Inr L"
    using a us vs inv by (auto simp: visjac_p_def L_def f_def xs_def Z1_def)
  have lL: "length L = 2 * N"
    using concat_pairs(1)[OF f2] lxs by (simp add: L_def)
  have pair: "\<And>i. i < N \<Longrightarrow> [L ! (2 * i), L ! (2 * i + 1)]
       = visjac_point (K cam) Ki (if length Z = 1 then Z ! 0 else Z ! i) [us ! i, vs ! i]"
  proof -
    fix i assume i: "i < N"
    then have "i < length xs" using lxs by simp
    from concat_pairs(2)[OF f2 this]
    have "[L ! (2 * i), L ! (2 * i + 1)] = [f (xs ! i) ! 0, f (xs ! i) ! 1]"
      by (simp add: L_def)
    also have "\<dots> = f (xs ! i)"
      by (rule two_rows) (simp add: f_def xsn[OF i] visjac_point_rows)
    finally show "[L ! (2 * i), L ! (2 * i + 1)]
       = visjac_point (K cam) Ki (if length Z = 1 then Z ! 0 else Z ! i) [us ! i, vs ! i]"
      by (simp add: f_def xsn[OF i])
  qed
  have cols: "\<forall>k < 2 * N. length (L ! k) = 6"
  proof (intro allI impI)
    fix k assume "k < 2 * N"
    then have "L ! k \<in> set L" using lL by simp
    then show "length (L ! k) = 6"
      by (auto simp: L_def f_def dest: visjac_point_cols)
  qed
  have closed: "\<forall>i<N. (if length Z = 1 then Z ! 0 else Z ! i) \<noteq> 0 \<longrightarrow>
        [L ! (2 * i), L ! (2 * i + 1)]
          = map (map Fin) (jacobian_closed_form (K cam) Ki (us ! i) (vs ! i)
              (if length Z = 1 then Z ! 0 else Z ! i))"
  proof (intro allI impI)
    fix i assume i: "i < N" and nz: "(if length Z = 1 then Z ! 0 else Z ! i) \<noteq> 0"
    show "[L ! (2 * i), L ! (2 * i + 1)]
          = map (map Fin) (jacobian_closed_form (K cam) Ki (us ! i) (vs ! i)
              (if length Z = 1 then Z ! 0 else Z ! i))"
      unfolding pair[OF i] by (rule visjac_point_closed[OF nz])
  qed
  from inv vp lL cols pair closed
  show "\<exists>L Ki. inv3 (K cam) = Inr Ki \<and> visjac_p cam [us, vs] Z = Inr L
             \<and> length L = 2 * N \<and> (\<forall>k < 2 * N. length (L ! k) = 6)
             \<and> (\<forall>i<N. [L ! (2 * i), L ! (2 * i + 1)]
                    = visjac_point (K cam) Ki (if length Z = 1 then Z ! 0 else Z ! i)
                        [us ! i, vs ! i])
             \<and> (\<forall>i<N. (if length Z = 1 then Z ! 0 else Z ! i) \<noteq> 0 \<longrightarrow>
                    [L ! (2 * i), L ! (2 * i + 1)]
                    = map (map Fin) (jacobian_closed_form (K cam) Ki (us ! i) (vs ! i)
                        (if length Z = 1 then Z ! 0 else Z ! i)))"
    by blast
qed


theorem visjac_p_contract_witness:
  "\<exists>L. visjac_p CentralCamera_default [[512, 612], [512, 512]] [2] = Inr L \<and> length L = 2 * 2
      \<and> [L ! (2 * 1), L ! (2 * 1 + 1)]
          = map (map Fin) [[- 400, 0, 50, 0, - 1625 / 2, 0], [0, - 400, 0, 800, 0, - 100]]
      \<and> visjac_p CentralCamera_default [[512, 612], [512, 512]] [2, 3, 4] = Inl ValueError"
proof -
  have us: "length [512, 612 :: real] = 2" and vs: "length [512, 512 :: real] = 2" by simp_all
  have d: "det3 (K CentralCamera_default) \<noteq> 0" by (simp add: K_default)
  have Ki: "inv3 (K CentralCamera_default)
      = Inr [[1 / 800, 0, - 512 / 800], [0, 1 / 800, - 512 / 800], [0, 0, 1]]"
    by (simp add: inv3_def K_default)
  have J: "jacobian_closed_form (K CentralCamera_default)
        [[1 / 800, 0, - 512 / 800], [0, 1 / 800, - 512 / 800], [0, 0, 1]] 612 512 2
      = [[- 400, 0, 50, 0, - 1625 / 2, 0], [0, - 400, 0, 800, 0, - 100]]"
    by (simp add: jacobian_closed_form_def K_default matvec_def matmul_def dot_def Let_def
        power2_eq_square)
  have c: "(length [2 :: real] = 1 \<or> length [2 :: real] = 2) \<and> det3 (K CentralCamera_default) \<noteq> 0"
    using d by simp
  from visjac_p_contract[OF us vs, of "[2]" CentralCamera_default] c Ki
  obtain L where L: "visjac_p CentralCamera_default [[512, 612], [512, 512]] [2] = Inr L"
      "length L = 2 * 2"
    and cl: "\<forall>i<2. (if length [2 :: real] = 1 then [2 :: real] ! 0 else [2] ! i) \<noteq> 0 \<longrightarrow>
        [L ! (2 * i), L ! (2 * i + 1)]
          = map (map Fin) (jacobian_closed_form (K CentralCamera_default)
              [[1 / 800, 0, - 512 / 800], [0, 1 / 800, - 512 / 800], [0, 0, 1]]
              ([512, 612] ! i) ([512, 512] ! i)
              (if length [2 :: real] = 1 then [2 :: real] ! 0 else [2] ! i))"
    by auto
  from cl[rule_format, of 1] J
  have p1: "[L ! (2 * 1), L ! (2 * 1 + 1)]
      = map (map Fin) [[- 400, 0, 50, 0, - 1625 / 2, 0], [0, - 400, 0, 800, 0, - 100]]"
    by simp
  have e: "length [2, 3, 4 :: real] \<noteq> 1 \<and> length [2, 3, 4 :: real] \<noteq> 2" by simp
  from visjac_p_contract[OF us vs, of "[2, 3, 4]" CentralCamera_default] e
  have f: "visjac_p CentralCamera_default [[512, 612], [512, 512]] [2, 3, 4] = Inl ValueError"
    by blast
  show ?thesis by (intro exI[of _ L] conjI) (rule L p1 f)+
qed

section \<open>Decomposition: the RQ factors and the outcome\<close>

lemma flip_transpose_twice:
  "shape M = Some (3, 3) \<Longrightarrow> flipud_lr (transpose (flipud_lr (transpose M))) = M"
  by (auto dest!: shape33 simp: flipud_lr_def)

lemma orthogonal3_D:
  assumes "orthogonal3 [[a, b, c], [d, e, f], [g, h, i]]"
  shows "a*a+b*b+c*c = 1" "a*d+b*e+c*f = 0" "a*g+b*h+c*i = 0"
     "d*d+e*e+f*f = 1" "d*g+e*h+f*i = 0" "g*g+h*h+i*i = 1"
     "a*a+d*d+g*g = 1" "a*b+d*e+g*h = 0" "a*c+d*f+g*i = 0"
     "b*b+e*e+h*h = 1" "b*c+e*f+h*i = 0" "c*c+f*f+i*i = 1"
  using assms unfolding orthogonal3_def
  by (simp_all add: matmul_def dot_def eye3_def algebra_simps)

lemma orthogonal3_I:
  assumes "a*a+b*b+c*c = 1" "a*d+b*e+c*f = 0" "a*g+b*h+c*i = 0"
     "d*d+e*e+f*f = 1" "d*g+e*h+f*i = 0" "g*g+h*h+i*i = 1"
     "a*a+d*d+g*g = 1" "a*b+d*e+g*h = 0" "a*c+d*f+g*i = 0"
     "b*b+e*e+h*h = 1" "b*c+e*f+h*i = 0" "c*c+f*f+i*i = (1::real)"
  shows "orthogonal3 [[a, b, c], [d, e, f], [g, h, i]]"
proof -
  have "d*a+e*b+f*c = 0" "g*a+h*b+i*c = 0" "g*d+h*e+i*f = 0"
       "b*a+e*d+h*g = 0" "c*a+f*d+i*g = 0" "c*b+f*e+i*h = 0"
    using assms by (simp_all add: mult.commute)
  with assms show ?thesis
    unfolding orthogonal3_def
    by (simp add: matmul_def dot_def eye3_def shape_def)
qed

lemma det3_orthogonal:
  assumes "orthogonal3 A"
  shows "det3 A = 1 \<or> det3 A = - 1"
proof -
  from assms obtain a b c d e f g h i where A: "A = [[a, b, c], [d, e, f], [g, h, i]]"
    using shape33 unfolding orthogonal3_def by blast
  note o = orthogonal3_D[OF assms[unfolded A]]
  have "(det3 A)\<^sup>2 = (a*a+b*b+c*c) * ((d*d+e*e+f*f) * (g*g+h*h+i*i) - (d*g+e*h+f*i) * (d*g+e*h+f*i))
      - (a*d+b*e+c*f) * ((a*d+b*e+c*f) * (g*g+h*h+i*i) - (d*g+e*h+f*i) * (a*g+b*h+c*i))
      + (a*g+b*h+c*i) * ((a*d+b*e+c*f) * (d*g+e*h+f*i) - (d*d+e*e+f*f) * (a*g+b*h+c*i))"
    unfolding A by (simp add: power2_eq_square algebra_simps)
  also have "\<dots> = 1" by (simp add: o)
  finally have "(det3 A)\<^sup>2 = 1" .
  then show ?thesis by (simp add: power2_eq_1_iff)
qed

lemma upper3_E:
  assumes "upper3 A"
  obtains a b c e f i where "A = [[a, b, c], [0, e, f], [0, 0, i]]"
proof -
  from assms obtain a b c d e f g h i where A: "A = [[a, b, c], [d, e, f], [g, h, i]]"
    using shape33 unfolding upper3_def by blast
  with assms have "d = 0" "g = 0" "h = 0" by (simp_all add: upper3_def)
  with A that show ?thesis by blast
qed

lemma rq_spec:
  assumes sh: "shape M = Some (3, 3)" and qr: "qr_contract qr (flipud_lr (transpose M))"
  shows "\<exists>Kq Rq. rq qr M = (Kq, Rq) \<and> upper3 Kq \<and> orthogonal3 Rq \<and> det3 Rq = 1
           \<and> matmul Kq Rq = M"
proof -
  obtain Q U where QU: "qr (flipud_lr (transpose M)) = (Q, U)" by (cases "qr (flipud_lr (transpose M))")
  from qr QU have oQ: "orthogonal3 Q" and uU: "upper3 U" and prod: "matmul Q U = flipud_lr (transpose M)"
    by (simp_all add: qr_contract_def upper3_def)
  from oQ obtain a b c d e f g h i where Q: "Q = [[a, b, c], [d, e, f], [g, h, i]]"
    using shape33 unfolding orthogonal3_def by blast
  from uU obtain u0 u1 u2 u3 u4 u5 where U: "U = [[u0, u1, u2], [0, u3, u4], [0, 0, u5]]"
    by (rule upper3_E)
  note o = orthogonal3_D[OF oQ[unfolded Q]]
  have M: "M = flipud_lr (transpose (matmul Q U))"
    using flip_transpose_twice[OF sh] prod by simp
  let ?Q2 = "[[i, f, c], [h, e, b], [g, d, a]]"
  let ?U2 = "[[u5, u4, u2], [0, u3, u1], [0, 0, u0]]"
  have Q2: "flipud_lr (transpose Q) = ?Q2" and U2: "flipud_lr (transpose U) = ?U2"
    by (simp_all add: Q U flipud_lr_def)
  have oQ2: "orthogonal3 ?Q2"
    by (rule orthogonal3_I) (use o in \<open>simp_all add: algebra_simps\<close>)
  have Mx: "M = matmul ?U2 ?Q2"
    unfolding M Q U by (simp add: flipud_lr_def matmul_def dot_def algebra_simps)
  have rqv: "rq qr M = (if det3 ?Q2 < 0
         then (map (\<lambda>r. (- hd r) # tl r) ?U2, map uminus (hd ?Q2) # tl ?Q2)
         else (?U2, ?Q2))"
    by (simp add: rq_def QU Q2 U2 Let_def)
  show ?thesis
  proof (cases "det3 ?Q2 < 0")
    case False
    with det3_orthogonal[OF oQ2] have "det3 ?Q2 = 1" by auto
    moreover have "upper3 ?U2" by (simp add: upper3_def shape_def)
    ultimately show ?thesis using rqv False oQ2 Mx by simp
  next
    case True
    let ?Q3 = "[[- i, - f, - c], [h, e, b], [g, d, a]]"
    let ?U3 = "[[- u5, u4, u2], [0, u3, u1], [0, 0, u0]]"
    from True det3_orthogonal[OF oQ2] have dm: "det3 ?Q2 = - 1" by auto
    have r: "rq qr M = (?U3, ?Q3)" using rqv True by simp
    have o3: "orthogonal3 ?Q3"
      by (rule orthogonal3_I) (use orthogonal3_D[OF oQ2] in \<open>simp_all\<close>)
    have d3: "det3 ?Q3 = 1" using dm by (simp add: algebra_simps)
    have u3: "upper3 ?U3" by (simp add: upper3_def shape_def)
    have m3: "matmul ?U3 ?Q3 = M" unfolding Mx by (simp add: matmul_def dot_def)
    from r o3 d3 u3 m3 show ?thesis by blast
  qed
qed

lemma scaled_unit_rows_eq:
  fixes a b :: real
  assumes pos: "0 < a" "0 < b"
    and up: "p0*p0 + p1*p1 + p2*p2 = 1" and uq: "q0*q0 + q1*q1 + q2*q2 = 1"
    and e: "a * p0 = b * q0" "a * p1 = b * q1" "a * p2 = b * q2"
  shows "a = b" "p0 = q0" "p1 = q1" "p2 = q2"
proof -
  have "a * a = (a*p0)*(a*p0) + (a*p1)*(a*p1) + (a*p2)*(a*p2)"
    using up by (simp add: algebra_simps flip: distrib_left)
  also have "\<dots> = (b*q0)*(b*q0) + (b*q1)*(b*q1) + (b*q2)*(b*q2)" by (simp only: e)
  also have "\<dots> = b * b" using uq by (simp add: algebra_simps flip: distrib_left)
  finally have "a\<^sup>2 = b\<^sup>2" by (simp add: power2_eq_square)
  then show ab: "a = b" using pos by (simp add: power2_eq_iff_nonneg)
  show "p0 = q0" "p1 = q1" "p2 = q2" using e pos unfolding ab by simp_all
qed

lemma rq_unique:
  fixes a0 a1 a2 a3 a4 a5 b0 b1 b2 b3 b4 b5 :: real
  assumes pa: "0 < a0" "0 < a3" "0 < a5" and pb: "0 < b0" "0 < b3" "0 < b5"
    and oA: "p0*p0+p1*p1+p2*p2 = 1" "p0*p3+p1*p4+p2*p5 = 0" "p0*p6+p1*p7+p2*p8 = 0"
            "p3*p3+p4*p4+p5*p5 = 1" "p3*p6+p4*p7+p5*p8 = 0" "p6*p6+p7*p7+p8*p8 = 1"
    and oB: "q0*q0+q1*q1+q2*q2 = 1" "q0*q3+q1*q4+q2*q5 = 0" "q0*q6+q1*q7+q2*q8 = 0"
            "q3*q3+q4*q4+q5*q5 = 1" "q3*q6+q4*q7+q5*q8 = 0" "q6*q6+q7*q7+q8*q8 = 1"
    and r2: "a5*p6 = b5*q6" "a5*p7 = b5*q7" "a5*p8 = b5*q8"
    and r1: "a3*p3 + a4*p6 = b3*q3 + b4*q6" "a3*p4 + a4*p7 = b3*q4 + b4*q7"
            "a3*p5 + a4*p8 = b3*q5 + b4*q8"
    and r0: "a0*p0 + a1*p3 + a2*p6 = b0*q0 + b1*q3 + b2*q6"
            "a0*p1 + a1*p4 + a2*p7 = b0*q1 + b1*q4 + b2*q7"
            "a0*p2 + a1*p5 + a2*p8 = b0*q2 + b1*q5 + b2*q8"
  shows "a0 = b0 \<and> a1 = b1 \<and> a2 = b2 \<and> a3 = b3 \<and> a4 = b4 \<and> a5 = b5"
    and "p0 = q0 \<and> p1 = q1 \<and> p2 = q2 \<and> p3 = q3 \<and> p4 = q4 \<and> p5 = q5
         \<and> p6 = q6 \<and> p7 = q7 \<and> p8 = q8"
proof -
  note s2 = scaled_unit_rows_eq[OF pa(3) pb(3) oA(6) oB(6) r2]
  \<comment> \<open>second row: project on the third row\<close>
  have "a4 = (a3*p3 + a4*p6) * p6 + (a3*p4 + a4*p7) * p7 + (a3*p5 + a4*p8) * p8"
  proof -
    have "(a3*p3 + a4*p6) * p6 + (a3*p4 + a4*p7) * p7 + (a3*p5 + a4*p8) * p8
        = a3 * (p3*p6+p4*p7+p5*p8) + a4 * (p6*p6+p7*p7+p8*p8)"
      by (simp add: algebra_simps)
    then show ?thesis by (simp add: oA)
  qed
  also have "\<dots> = (b3*q3 + b4*q6) * q6 + (b3*q4 + b4*q7) * q7 + (b3*q5 + b4*q8) * q8"
    by (simp only: r1) (simp only: s2)
  also have "\<dots> = b4"
  proof -
    have "(b3*q3 + b4*q6) * q6 + (b3*q4 + b4*q7) * q7 + (b3*q5 + b4*q8) * q8
        = b3 * (q3*q6+q4*q7+q5*q8) + b4 * (q6*q6+q7*q7+q8*q8)"
      by (simp add: algebra_simps)
    then show ?thesis by (simp add: oB)
  qed
  finally have e4: "a4 = b4" .
  have r1': "a3*p3 = b3*q3" "a3*p4 = b3*q4" "a3*p5 = b3*q5"
    using r1 unfolding e4 s2 by simp_all
  note s1 = scaled_unit_rows_eq[OF pa(2) pb(2) oA(4) oB(4) r1']
  \<comment> \<open>first row: project on the third and on the second row\<close>
  have "a2 = (a0*p0 + a1*p3 + a2*p6) * p6 + (a0*p1 + a1*p4 + a2*p7) * p7
      + (a0*p2 + a1*p5 + a2*p8) * p8"
  proof -
    have "(a0*p0 + a1*p3 + a2*p6) * p6 + (a0*p1 + a1*p4 + a2*p7) * p7
      + (a0*p2 + a1*p5 + a2*p8) * p8
        = a0 * (p0*p6+p1*p7+p2*p8) + a1 * (p3*p6+p4*p7+p5*p8) + a2 * (p6*p6+p7*p7+p8*p8)"
      by (simp add: algebra_simps)
    then show ?thesis by (simp add: oA)
  qed
  also have "\<dots> = (b0*q0 + b1*q3 + b2*q6) * q6 + (b0*q1 + b1*q4 + b2*q7) * q7
      + (b0*q2 + b1*q5 + b2*q8) * q8"
    by (simp only: r0) (simp only: s2)
  also have "\<dots> = b2"
  proof -
    have "(b0*q0 + b1*q3 + b2*q6) * q6 + (b0*q1 + b1*q4 + b2*q7) * q7
      + (b0*q2 + b1*q5 + b2*q8) * q8
        = b0 * (q0*q6+q1*q7+q2*q8) + b1 * (q3*q6+q4*q7+q5*q8) + b2 * (q6*q6+q7*q7+q8*q8)"
      by (simp add: algebra_simps)
    then show ?thesis by (simp add: oB)
  qed
  finally have e2: "a2 = b2" .
  have "a1 = (a0*p0 + a1*p3 + a2*p6) * p3 + (a0*p1 + a1*p4 + a2*p7) * p4
      + (a0*p2 + a1*p5 + a2*p8) * p5"
  proof -
    have "(a0*p0 + a1*p3 + a2*p6) * p3 + (a0*p1 + a1*p4 + a2*p7) * p4
      + (a0*p2 + a1*p5 + a2*p8) * p5
        = a0 * (p0*p3+p1*p4+p2*p5) + a1 * (p3*p3+p4*p4+p5*p5) + a2 * (p3*p6+p4*p7+p5*p8)"
      by (simp add: algebra_simps)
    then show ?thesis by (simp add: oA)
  qed
  also have "\<dots> = (b0*q0 + b1*q3 + b2*q6) * q3 + (b0*q1 + b1*q4 + b2*q7) * q4
      + (b0*q2 + b1*q5 + b2*q8) * q5"
    by (simp only: r0) (simp only: s1)
  also have "\<dots> = b1"
  proof -
    have "(b0*q0 + b1*q3 + b2*q6) * q3 + (b0*q1 + b1*q4 + b2*q7) * q4
      + (b0*q2 + b1*q5 + b2*q8) * q5
        = b0 * (q0*q3+q1*q4+q2*q5) + b1 * (q3*q3+q4*q4+q5*q5) + b2 * (q3*q6+q4*q7+q5*q8)"
      by (simp add: algebra_simps)
    then show ?thesis by (simp add: oB)
  qed
  finally have e1: "a1 = b1" .
  have r0': "a0*p0 = b0*q0" "a0*p1 = b0*q1" "a0*p2 = b0*q2"
    using r0 unfolding e1 e2 s1 s2 by simp_all
  note s0 = scaled_unit_rows_eq[OF pa(1) pb(1) oA(1) oB(1) r0']
  show "a0 = b0 \<and> a1 = b1 \<and> a2 = b2 \<and> a3 = b3 \<and> a4 = b4 \<and> a5 = b5"
    using s0(1) e1 e2 s1(1) e4 s2(1) by simp
  show "p0 = q0 \<and> p1 = q1 \<and> p2 = q2 \<and> p3 = q3 \<and> p4 = q4 \<and> p5 = q5
         \<and> p6 = q6 \<and> p7 = q7 \<and> p8 = q8"
    using s0 s1 s2 by simp
qed

lemma shape34:
  assumes "shape A = Some (3, 4)"
  shows "\<exists>a b c d e f g h i j k l. A = [[a, b, c, d], [e, f, g, h], [i, j, k, l]]"
proof -
  from shape_rows[OF assms] have l: "length A = 3" and r: "\<forall>x\<in>set A. length x = 4"
    by auto
  from len3[OF l] obtain x y z where A: "A = [x, y, z]" by blast
  with r have "length x = 4" "length y = 4" "length z = 4" by auto
  with A show ?thesis by (auto dest!: len4)
qed

lemma shape_leading3:
  assumes "shape Cm = Some (3, 4)"
  shows "shape (leading3 Cm) = Some (3, 3)"
proof -
  from shape34[OF assms] obtain a b c d e f g h i j k l
    where "Cm = [[a, b, c, d], [e, f, g, h], [i, j, k, l]]" by blast
  then show ?thesis by (simp add: leading3_def shape_def)
qed

lemma det3_upper_matmul:
  "det3 (matmul [[k0, k1, k2], [0, k3, k4], [0, 0, k5]] [[a, b, c], [d, e, f], [g, h, i]])
     = k0 * k3 * k5 * det3 [[a, b, c], [d, e, f], [g, h, i]]"
  by (simp add: matmul_def dot_def algebra_simps)

lemma isclose_sgn: "isclose (sgn x) 1 \<longleftrightarrow> 0 < x"
  by (cases "x = 0"; cases "0 < x") (simp_all add: isclose_def sgn_real_def)

lemma sgn_sq: "x \<noteq> 0 \<Longrightarrow> sgn x * sgn x = (1::real)"
  by (simp add: sgn_real_def)

lemma orthogonal3_sign_rows:
  assumes oR: "orthogonal3 [[a, b, c], [d, e, f], [g, h, i]]"
    and s: "s0 = 1 \<or> s0 = - 1" "s3 = 1 \<or> s3 = - 1" "s5 = 1 \<or> s5 = - (1::real)"
  shows "orthogonal3 [[s0 * a, s0 * b, s0 * c], [s3 * d, s3 * e, s3 * f], [s5 * g, s5 * h, s5 * i]]"
proof -
  note o = orthogonal3_D[OF oR]
  show ?thesis
    using s o
    by (elim disjE; simp; intro orthogonal3_I; linarith)
qed

lemma sgn_cases: "x \<noteq> 0 \<Longrightarrow> sgn x = 1 \<or> sgn x = - (1::real)"
  by (simp add: sgn_real_def)

lemma decomposeC_outcome:
  assumes sh: "shape Cm = Some (3, 4)"
    and qr: "qr_contract qr (flipud_lr (transpose (leading3 Cm)))"
  shows "det3 (sign_correction (fst (rq qr (leading3 Cm)))) = sgn (det3 (leading3 Cm))
     \<and> (det3 (leading3 Cm) \<le> 0 \<longrightarrow> decomposeC svd qr Cm = Inl RuntimeError)
     \<and> (0 < det3 (leading3 Cm) \<longrightarrow>
          (\<exists>k0 k1 k2 k3 k4 k5 R1. 0 < k0 \<and> 0 < k3 \<and> 0 < k5 \<and> orthogonal3 R1
             \<and> matmul [[k0, k1, k2], [0, k3, k4], [0, 0, k5]] R1 = leading3 Cm
             \<and> decomposeC svd qr Cm
                = Inr (CentralCamera_init (k0 / k5) [k2 / k5, k4 / k5] [1, k3 / k5 / (k0 / k5)]
                        (SE3_Rt (transpose R1) (camera_centre svd Cm)))))"
proof -
  let ?M = "leading3 Cm"
  from rq_spec[OF shape_leading3[OF sh] qr] obtain Kq Rq where
    rqv: "rq qr ?M = (Kq, Rq)" and up: "upper3 Kq" and oR: "orthogonal3 Rq"
    and dR: "det3 Rq = 1" and KR: "matmul Kq Rq = ?M" by blast
  from up obtain k0 k1 k2 k3 k4 k5 where Kq: "Kq = [[k0, k1, k2], [0, k3, k4], [0, 0, k5]]"
    by (rule upper3_E)
  from oR obtain a b c d e f g h i where Rq: "Rq = [[a, b, c], [d, e, f], [g, h, i]]"
    using shape33 unfolding orthogonal3_def by blast
  note o = orthogonal3_D[OF oR[unfolded Rq]]
  have dM: "det3 ?M = k0 * k3 * k5"
    using det3_upper_matmul[of k0 k1 k2 k3 k4 k5 a b c d e f g h i] dR KR
    unfolding Kq Rq by simp
  have Cs: "sign_correction Kq = [[sgn k0, 0, 0], [0, sgn k3, 0], [0, 0, sgn k5]]"
    by (simp add: sign_correction_def Kq)
  have dCs: "det3 (sign_correction Kq) = sgn (det3 ?M)"
    by (simp add: Cs dM sgn_mult)
  have dec: "decomposeC svd qr Cm =
      (if \<not> isclose (det3 (sign_correction Kq)) 1 then Inl RuntimeError
       else
         (let K1 = matmul Kq (sign_correction Kq);
              R1 = matmul (transpose (sign_correction Kq)) Rq;
              K2 = map (map (\<lambda>x. x / K1 ! 2 ! 2)) K1;
              f = K2 ! 0 ! 0;
              s = [1, K2 ! 1 ! 1 / K2 ! 0 ! 0]
          in Inr (CentralCamera_init f (map (\<lambda>r. r ! 2) (take 2 K2)) s
                   (SE3_Rt (transpose R1) (camera_centre svd Cm)))))"
    using sh rqv
    by (simp add: decomposeC_def camera_centre_def leading3_def Let_def split: prod.splits)
  have c1: "det3 (sign_correction (fst (rq qr ?M))) = sgn (det3 ?M)"
    using dCs rqv by simp
  have c2: "det3 ?M \<le> 0 \<longrightarrow> decomposeC svd qr Cm = Inl RuntimeError"
    using dec dCs isclose_sgn[of "det3 ?M"] by auto
  have c3: "0 < det3 ?M \<longrightarrow>
          (\<exists>k0 k1 k2 k3 k4 k5 R1. 0 < k0 \<and> 0 < k3 \<and> 0 < k5 \<and> orthogonal3 R1
             \<and> matmul [[k0, k1, k2], [0, k3, k4], [0, 0, k5]] R1 = ?M
             \<and> decomposeC svd qr Cm
                = Inr (CentralCamera_init (k0 / k5) [k2 / k5, k4 / k5] [1, k3 / k5 / (k0 / k5)]
                        (SE3_Rt (transpose R1) (camera_centre svd Cm))))"
  proof
    assume pos: "0 < det3 ?M"
    then have nz: "k0 \<noteq> 0" "k3 \<noteq> 0" "k5 \<noteq> 0" using dM by auto
    define s0 where "s0 = sgn k0"
    define s3 where "s3 = sgn k3"
    define s5 where "s5 = sgn k5"
    have sq: "s0 * s0 = 1" "s3 * s3 = 1" "s5 * s5 = 1"
      using nz by (simp_all add: s0_def s3_def s5_def sgn_sq)
    have ab: "k0 * s0 = \<bar>k0\<bar>" "k3 * s3 = \<bar>k3\<bar>" "k5 * s5 = \<bar>k5\<bar>"
      by (simp_all add: s0_def s3_def s5_def sgn_real_def)
    let ?R1 = "[[s0 * a, s0 * b, s0 * c], [s3 * d, s3 * e, s3 * f], [s5 * g, s5 * h, s5 * i]]"
    have Csx: "sign_correction Kq = [[s0, 0, 0], [0, s3, 0], [0, 0, s5]]"
      by (simp add: Cs s0_def s3_def s5_def)
    have K1: "matmul Kq (sign_correction Kq)
        = [[\<bar>k0\<bar>, k1 * s3, k2 * s5], [0, \<bar>k3\<bar>, k4 * s5], [0, 0, \<bar>k5\<bar>]]"
      using Csx unfolding Kq by (simp add: matmul_def dot_def ab)
    have R1: "matmul (transpose (sign_correction Kq)) Rq = ?R1"
      using Csx unfolding Rq by (simp add: matmul_def dot_def)
    have oR1: "orthogonal3 ?R1"
      by (rule orthogonal3_sign_rows[OF oR[unfolded Rq]])
         (use nz in \<open>simp_all add: s0_def s3_def s5_def sgn_cases\<close>)
    have prod1: "matmul [[\<bar>k0\<bar>, k1 * s3, k2 * s5], [0, \<bar>k3\<bar>, k4 * s5], [0, 0, \<bar>k5\<bar>]] ?R1 = ?M"
    proof -
      have "matmul [[k0 * s0, k1 * s3, k2 * s5], [0, k3 * s3, k4 * s5], [0, 0, k5 * s5]] ?R1
          = [[k0 * (s0 * s0) * a + k1 * (s3 * s3) * d + k2 * (s5 * s5) * g,
              k0 * (s0 * s0) * b + k1 * (s3 * s3) * e + k2 * (s5 * s5) * h,
              k0 * (s0 * s0) * c + k1 * (s3 * s3) * f + k2 * (s5 * s5) * i],
             [k3 * (s3 * s3) * d + k4 * (s5 * s5) * g,
              k3 * (s3 * s3) * e + k4 * (s5 * s5) * h,
              k3 * (s3 * s3) * f + k4 * (s5 * s5) * i],
             [k5 * (s5 * s5) * g, k5 * (s5 * s5) * h, k5 * (s5 * s5) * i]]"
        by (simp add: matmul_def dot_def algebra_simps)
      also have "\<dots> = matmul Kq Rq"
        unfolding Kq Rq sq by (simp add: matmul_def dot_def)
      finally show ?thesis using KR by (simp add: ab)
    qed
    have kp: "0 < \<bar>k0\<bar>" "0 < \<bar>k3\<bar>" "0 < \<bar>k5\<bar>" using nz by simp_all
    have res: "decomposeC svd qr Cm
        = Inr (CentralCamera_init (\<bar>k0\<bar> / \<bar>k5\<bar>) [k2 * s5 / \<bar>k5\<bar>, k4 * s5 / \<bar>k5\<bar>]
                 [1, \<bar>k3\<bar> / \<bar>k5\<bar> / (\<bar>k0\<bar> / \<bar>k5\<bar>)]
                 (SE3_Rt (transpose ?R1) (camera_centre svd Cm)))"
      using pos unfolding dec dCs isclose_sgn K1 R1
      by (simp add: Let_def)
    show "\<exists>k0 k1 k2 k3 k4 k5 R1. 0 < k0 \<and> 0 < k3 \<and> 0 < k5 \<and> orthogonal3 R1
             \<and> matmul [[k0, k1, k2], [0, k3, k4], [0, 0, k5]] R1 = ?M
             \<and> decomposeC svd qr Cm
                = Inr (CentralCamera_init (k0 / k5) [k2 / k5, k4 / k5] [1, k3 / k5 / (k0 / k5)]
                        (SE3_Rt (transpose R1) (camera_centre svd Cm)))"
      using kp oR1 prod1 res by blast
  qed
  from c1 c2 c3 show ?thesis by blast
qed

section \<open>Decomposition: determinants, the camera centre and the round trip\<close>

lemma K_diag_init:
  assumes "0 < f" "0 < s1"
  shows "0 < K (CentralCamera_init f pp [1, s1] T) ! 0 ! 0"
    "0 < K (CentralCamera_init f pp [1, s1] T) ! 1 ! 1"
    "0 < K (CentralCamera_init f pp [1, s1] T) ! 2 ! 2"
  using assms by (simp_all add: K_def CentralCamera_init_def)

lemma det3_null_vector:
  fixes a b c d e f g h i x y z :: real
  assumes "a * x + b * y + c * z = 0" "d * x + e * y + f * z = 0" "g * x + h * y + i * z = 0"
    and "x \<noteq> 0 \<or> y \<noteq> 0 \<or> z \<noteq> 0"
  shows "det3 [[a, b, c], [d, e, f], [g, h, i]] = 0"
proof -
  let ?D = "det3 [[a, b, c], [d, e, f], [g, h, i]]"
  have "?D * x = (e*i - f*h) * (a * x + b * y + c * z) + (c*h - b*i) * (d * x + e * y + f * z)
      + (b*f - c*e) * (g * x + h * y + i * z)"
    by (simp add: algebra_simps)
  then have x: "?D * x = 0" by (simp only: assms(1-3))
  have "?D * y = (f*g - d*i) * (a * x + b * y + c * z) + (a*i - c*g) * (d * x + e * y + f * z)
      + (c*d - a*f) * (g * x + h * y + i * z)"
    by (simp add: algebra_simps)
  then have y: "?D * y = 0" by (simp only: assms(1-3))
  have "?D * z = (d*h - e*g) * (a * x + b * y + c * z) + (b*g - a*h) * (d * x + e * y + f * z)
      + (a*e - b*d) * (g * x + h * y + i * z)"
    by (simp add: algebra_simps)
  then have z: "?D * z = 0" by (simp only: assms(1-3))
  from x y z assms(4) show ?thesis by auto
qed

lemma shape44_row3:
  assumes "shape vh = Some (4, 4)"
  shows "map (\<lambda>r. r ! 3) (transpose vh) = vh ! 3" and "length (vh ! 3) = 4"
proof -
  from shape_rows[OF assms] have l: "length vh = 4" and r: "\<forall>x\<in>set vh. length x = 4"
    by auto
  from len4[OF l] obtain x y z w where A: "vh = [x, y, z, w]" by blast
  with r have "length x = 4" "length y = 4" "length z = 4" "length w = 4" by auto
  then obtain x0 x1 x2 x3 y0 y1 y2 y3 z0 z1 z2 z3 w0 w1 w2 w3 where
    "x = [x0, x1, x2, x3]" "y = [y0, y1, y2, y3]" "z = [z0, z1, z2, z3]" "w = [w0, w1, w2, w3]"
    by (auto dest!: len4)
  with A show "map (\<lambda>r. r ! 3) (transpose vh) = vh ! 3" and "length (vh ! 3) = 4"
    by simp_all
qed

lemma transpose33: "shape A = Some (3, 3) \<Longrightarrow> transpose (transpose A) = A"
  by (auto dest!: shape33)

lemma det3_transpose: "shape A = Some (3, 3) \<Longrightarrow> det3 (transpose A) = det3 A"
  by (auto dest!: shape33 simp: algebra_simps)

lemma orthogonal3_transpose:
  assumes "orthogonal3 A"
  shows "orthogonal3 (transpose A)"
proof -
  from assms obtain a b c d e f g h i where A: "A = [[a, b, c], [d, e, f], [g, h, i]]"
    using shape33 unfolding orthogonal3_def by blast
  note o = orthogonal3_D[OF assms[unfolded A]]
  have "orthogonal3 [[a, d, g], [b, e, h], [c, f, i]]"
    by (rule orthogonal3_I) (rule o)+
  then show ?thesis by (simp add: A)
qed

lemma C_blocks:
  fixes cam :: "real camera" and x y z :: real
  assumes "SE3_R T = [[r0, r1, r2], [r3, r4, r5], [r6, r7, r8]]" "SE3_t T = [x, y, z]"
  defines "a \<equiv> fu cam / rhou cam" and "b \<equiv> fv cam / rhov cam"
  defines "m0 \<equiv> - (r0 * x + r3 * y + r6 * z)" and "m1 \<equiv> - (r1 * x + r4 * y + r7 * z)"
    and "m2 \<equiv> - (r2 * x + r5 * y + r8 * z)"
  shows "C cam (Some T) =
     [[a * r0 + u0 cam * r2, a * r3 + u0 cam * r5, a * r6 + u0 cam * r8, a * m0 + u0 cam * m2],
      [b * r1 + v0 cam * r2, b * r4 + v0 cam * r5, b * r7 + v0 cam * r8, b * m1 + v0 cam * m2],
      [r2, r5, r8, m2]]"
  by (simp add: C_def K_def P0_def SE3_A_def SE3_inv_def assms matmul_def matvec_def dot_def
      algebra_simps)

lemma leading3_C:
  assumes "pose_ok T"
  shows "leading3 (C cam (Some T)) = matmul (K cam) (transpose (SE3_R T))"
    and "shape (C cam (Some T)) = Some (3, 4)"
proof -
  from assms obtain r0 r1 r2 r3 r4 r5 r6 r7 r8
    where R: "SE3_R T = [[r0, r1, r2], [r3, r4, r5], [r6, r7, r8]]"
    using shape33 unfolding pose_ok_def by blast
  from assms obtain x y z where t: "SE3_t T = [x, y, z]" using len3 unfolding pose_ok_def by blast
  show "leading3 (C cam (Some T)) = matmul (K cam) (transpose (SE3_R T))"
    unfolding C_blocks[OF R t] by (simp add: leading3_def K_def R matmul_def dot_def)
  show "shape (C cam (Some T)) = Some (3, 4)"
    unfolding C_blocks[OF R t] by (simp add: shape_def)
qed

lemma det3_K_matmul:
  assumes "shape A = Some (3, 3)"
  shows "det3 (matmul (K cam) A) = fu cam / rhou cam * (fv cam / rhov cam) * det3 A"
proof -
  from shape33[OF assms] obtain a b c d e f g h i where "A = [[a, b, c], [d, e, f], [g, h, i]]"
    by blast
  then show ?thesis
    using det3_upper_matmul[of "fu cam / rhou cam" 0 "u0 cam" "fv cam / rhov cam" "v0 cam" 1]
    by (simp add: K_def)
qed

lemma camera_centre_recovered:
  fixes cam :: "real camera"
  assumes pa: "0 < fu cam / rhou cam" and pb: "0 < fv cam / rhov cam"
    and oR: "orthogonal3 (SE3_R T)" and lt: "length (SE3_t T) = 3"
    and svd: "svd_contract svd (C cam (Some T))"
  shows "camera_centre svd (C cam (Some T)) = map Fin (SE3_t T)"
proof -
  define a where "a = fu cam / rhou cam"
  define b where "b = fv cam / rhov cam"
  from oR obtain r0 r1 r2 r3 r4 r5 r6 r7 r8
    where R: "SE3_R T = [[r0, r1, r2], [r3, r4, r5], [r6, r7, r8]]"
    using shape33 unfolding orthogonal3_def by blast
  from lt obtain x y z where t: "SE3_t T = [x, y, z]" using len3 by blast
  note o = orthogonal3_D[OF oR[unfolded R]]
  note Cb = C_blocks[OF R t, of cam, folded a_def b_def]
  obtain u s vh where sv: "svd (C cam (Some T)) = (u, s, vh)" by (cases "svd (C cam (Some T))")
  from svd sv have vs: "shape vh = Some (4, 4)" and un: "dot (vh ! 3) (vh ! 3) = 1"
    and nl: "matvec (C cam (Some T)) (vh ! 3) = [0, 0, 0]"
    by (simp_all add: svd_contract_def)
  from shape44_row3(2)[OF vs] obtain n0 n1 n2 n3 where v: "vh ! 3 = [n0, n1, n2, n3]"
    using len4 by blast
  define d0 where "d0 = n0 - n3 * x"
  define d1 where "d1 = n1 - n3 * y"
  define d2 where "d2 = n2 - n3 * z"
  define w0 where "w0 = r0 * d0 + r3 * d1 + r6 * d2"
  define w1 where "w1 = r1 * d0 + r4 * d1 + r7 * d2"
  define w2 where "w2 = r2 * d0 + r5 * d1 + r8 * d2"
  have mv: "matvec (C cam (Some T)) (vh ! 3) = [a * w0 + u0 cam * w2, b * w1 + v0 cam * w2, w2]"
    unfolding Cb v
    by (simp add: matvec_def dot_def w0_def w1_def w2_def d0_def d1_def d2_def algebra_simps)
  from nl[unfolded mv] have w2z: "w2 = 0" by simp
  from nl[unfolded mv] have e0: "a * w0 + u0 cam * w2 = 0" and e1: "b * w1 + v0 cam * w2 = 0"
    by auto
  have "0 < a" "0 < b" using pa pb unfolding a_def b_def by blast+
  then have ab: "a \<noteq> 0" "b \<noteq> 0" by simp_all
  have w0z: "w0 = 0" using e0 w2z ab by simp
  have w1z: "w1 = 0" using e1 w2z ab by simp
  have "d0 = (r0*r0+r1*r1+r2*r2) * d0 + (r0*r3+r1*r4+r2*r5) * d1 + (r0*r6+r1*r7+r2*r8) * d2"
    by (simp add: o)
  also have "\<dots> = r0 * w0 + r1 * w1 + r2 * w2"
    by (simp add: w0_def w1_def w2_def algebra_simps)
  finally have d0z: "d0 = 0" by (simp add: w0z w1z w2z)
  have "d1 = (r0*r3+r1*r4+r2*r5) * d0 + (r3*r3+r4*r4+r5*r5) * d1 + (r3*r6+r4*r7+r5*r8) * d2"
    by (simp add: o)
  also have "\<dots> = r3 * w0 + r4 * w1 + r5 * w2"
    by (simp add: w0_def w1_def w2_def algebra_simps)
  finally have d1z: "d1 = 0" by (simp add: w0z w1z w2z)
  have "d2 = (r0*r6+r1*r7+r2*r8) * d0 + (r3*r6+r4*r7+r5*r8) * d1 + (r6*r6+r7*r7+r8*r8) * d2"
    by (simp add: o)
  also have "\<dots> = r6 * w0 + r7 * w1 + r8 * w2"
    by (simp add: w0_def w1_def w2_def algebra_simps)
  finally have d2z: "d2 = 0" by (simp add: w0z w1z w2z)
  have vv: "n0 = n3 * x" "n1 = n3 * y" "n2 = n3 * z"
    using d0z d1z d2z by (simp_all add: d0_def d1_def d2_def)
  have v3nz: "n3 \<noteq> 0"
  proof
    assume "n3 = 0"
    with vv un v show False by (simp add: dot_def)
  qed
  have tt: "map (\<lambda>r. r ! 3) (transpose vh) = [n3 * x, n3 * y, n3 * z, n3]"
    using shape44_row3(1)[OF vs] v vv by simp
  have "camera_centre svd (C cam (Some T)) = [Fin x, Fin y, Fin z]"
    using v3nz by (simp only: camera_centre_def sv Let_def prod.case tt) simp
  then show ?thesis by (simp add: t)
qed

lemma camera_ok_pose: "camera_ok cam \<Longrightarrow> pose_ok (pose cam)"
  by (simp add: camera_ok_def pose_ok_def orthogonal3_def)

lemma decomposeC_roundtrip:
  assumes ok: "camera_ok cam"
    and svd: "svd_contract svd (C cam None)"
    and qr: "qr_contract qr (flipud_lr (transpose (leading3 (C cam None))))"
  shows "decomposeC svd qr (C cam None)
     = Inr (CentralCamera_init (fu cam / rhou cam) [u0 cam, v0 cam]
              [1, fv cam / rhov cam / (fu cam / rhou cam)]
              (SE3_Rt (SE3_R (pose cam)) (map Fin (SE3_t (pose cam)))))"
proof -
  define a where "a = fu cam / rhou cam"
  define b where "b = fv cam / rhov cam"
  let ?T = "pose cam"
  have CN: "C cam None = C cam (Some ?T)" by (simp add: C_def)
  from ok have pa: "0 < a" and pb: "0 < b" and oR: "orthogonal3 (SE3_R ?T)"
    and dR: "det3 (SE3_R ?T) = 1" and lt: "length (SE3_t ?T) = 3"
    by (simp_all add: camera_ok_def a_def b_def)
  have sR: "shape (SE3_R ?T) = Some (3, 3)" using oR by (simp add: orthogonal3_def)
  from shape33[OF sR] obtain r0 r1 r2 r3 r4 r5 r6 r7 r8
    where R: "SE3_R ?T = [[r0, r1, r2], [r3, r4, r5], [r6, r7, r8]]" by blast
  note po = camera_ok_pose[OF ok]
  have sh: "shape (C cam None) = Some (3, 4)" unfolding CN by (rule leading3_C(2)[OF po])
  have M: "leading3 (C cam None) = matmul (K cam) (transpose (SE3_R ?T))"
    unfolding CN by (rule leading3_C(1)[OF po])
  have sT: "shape (transpose (SE3_R ?T)) = Some (3, 3)"
    using orthogonal3_transpose[OF oR] by (simp add: orthogonal3_def)
  have "0 < a * b * 1" using pa pb by simp
  then have dM: "0 < det3 (leading3 (C cam None))"
    unfolding M det3_K_matmul[OF sT] det3_transpose[OF sR] dR a_def b_def .
  from decomposeC_outcome[OF sh qr, of svd] dM
  obtain k0 k1 k2 k3 k4 k5 R1 where kp: "0 < k0" "0 < k3" "0 < k5" and oR1: "orthogonal3 R1"
    and prod: "matmul [[k0, k1, k2], [0, k3, k4], [0, 0, k5]] R1 = leading3 (C cam None)"
    and res: "decomposeC svd qr (C cam None)
                = Inr (CentralCamera_init (k0 / k5) [k2 / k5, k4 / k5] [1, k3 / k5 / (k0 / k5)]
                        (SE3_Rt (transpose R1) (camera_centre svd (C cam None))))"
    by blast
  from oR1 obtain p0 p1 p2 p3 p4 p5 p6 p7 p8
    where R1: "R1 = [[p0, p1, p2], [p3, p4, p5], [p6, p7, p8]]"
    using shape33 unfolding orthogonal3_def by blast
  note o1 = orthogonal3_D[OF oR1[unfolded R1]]
  note oT = orthogonal3_D[OF orthogonal3_transpose[OF oR, unfolded R, simplified]]
  have Kc: "K cam = [[a, 0, u0 cam], [0, b, v0 cam], [0, 0, 1]]"
    by (simp add: K_def a_def b_def)
  have eq: "matmul [[k0, k1, k2], [0, k3, k4], [0, 0, k5]] [[p0, p1, p2], [p3, p4, p5], [p6, p7, p8]]
      = matmul [[a, 0, u0 cam], [0, b, v0 cam], [0, 0, 1]] [[r0, r3, r6], [r1, r4, r7], [r2, r5, r8]]"
    using prod unfolding M R1 Kc R by simp
  have e2: "k5*p6 = 1*r2" "k5*p7 = 1*r5" "k5*p8 = 1*r8"
    using eq by (simp_all add: matmul_def dot_def)
  have e1: "k3*p3 + k4*p6 = b*r1 + v0 cam*r2" "k3*p4 + k4*p7 = b*r4 + v0 cam*r5"
      "k3*p5 + k4*p8 = b*r7 + v0 cam*r8"
    using eq by (simp_all add: matmul_def dot_def)
  have e0: "k0*p0 + k1*p3 + k2*p6 = a*r0 + 0*r1 + u0 cam*r2"
      "k0*p1 + k1*p4 + k2*p7 = a*r3 + 0*r4 + u0 cam*r5"
      "k0*p2 + k1*p5 + k2*p8 = a*r6 + 0*r7 + u0 cam*r8"
    using eq by (simp_all add: matmul_def dot_def add.assoc)
  have one: "0 < (1::real)" by simp
  note u = rq_unique[OF kp pa pb one o1(1-6) oT(1-6) e2 e1 e0]
  from u(1) have ks: "k0 = a" "k1 = 0" "k2 = u0 cam" "k3 = b" "k4 = v0 cam" "k5 = 1" by simp_all
  from u(2) have R1T: "R1 = transpose (SE3_R ?T)" by (simp add: R1 R)
  have cc: "camera_centre svd (C cam None) = map Fin (SE3_t ?T)"
    unfolding CN
    by (rule camera_centre_recovered[OF _ _ oR lt svd[unfolded CN]])
       (use pa pb in \<open>simp_all add: a_def b_def\<close>)
  show ?thesis
    unfolding res ks R1T transpose33[OF sR] cc by (simp add: a_def b_def)
qed

section \<open>Decomposition: the concrete matrices\<close>

lemma qr_of_upper_contract:
  "qr_contract qr_of_upper [[a, b, c], [0, e, f], [0, 0, i]]"
  using orthogonal3_eye3
  by (simp add: qr_contract_def qr_of_upper_def shape_def) (simp add: eye3_def matmul_def dot_def)

lemma C_reflection:
  "C nonsquare_camera (Some reflection_pose)
     = [[1, 0, 0, - 3 / 4], [0, 2, 0, 0], [0, 0, - 1, 0]]"
  by (simp add: C_def K_def nonsquare_camera_def reflection_pose_def SE3_inv_def SE3_A_def
      P0_def matmul_def matvec_def dot_def)

lemma C_nonsquare:
  "C nonsquare_camera None = [[1, 0, 0, - 3 / 4], [0, 2, 0, 0], [0, 0, 1, 0]]"
  by (simp add: C_def K_def nonsquare_camera_def eye3_def SE3_inv_def SE3_A_def
      P0_def matmul_def matvec_def dot_def)

lemma nonsquare_contracts:
  "camera_ok nonsquare_camera"
  "svd_contract nonsquare_svd (C nonsquare_camera None)"
  "qr_contract qr_of_upper (flipud_lr (transpose (leading3 (C nonsquare_camera None))))"
proof -
  show "camera_ok nonsquare_camera"
    using orthogonal3_eye3 by (simp add: camera_ok_def nonsquare_camera_def) (simp add: eye3_def)
  show "svd_contract nonsquare_svd (C nonsquare_camera None)"
    by (simp add: svd_contract_def nonsquare_svd_def C_nonsquare shape_def dot_def matvec_def)
  have "flipud_lr (transpose (leading3 (C nonsquare_camera None))) = [[1, 0, 0], [0, 2, 0], [0, 0, 1]]"
    by (simp add: C_nonsquare leading3_def flipud_lr_def)
  then show "qr_contract qr_of_upper (flipud_lr (transpose (leading3 (C nonsquare_camera None))))"
    by (simp add: qr_of_upper_contract)
qed

text \<open>
  Each of the concrete decompositions reconstructs its matrix, \<open>u @ diag(s) @ vh[:3]\<close>;
  that of \<open>far_matrix\<close> reconstructs the matrix nearby.
\<close>

lemma concrete_svds_reconstruct:
  "(case far_svd far_matrix of (u, s, vh) \<Rightarrow> matmul (matmul u (diagmat3 s)) (take 3 vh))
     = far_nearby"
  "(case affine_svd affine_matrix of (u, s, vh) \<Rightarrow> matmul (matmul u (diagmat3 s)) (take 3 vh))
     = affine_matrix"
  "(case nonsquare_svd (C nonsquare_camera None) of
      (u, s, vh) \<Rightarrow> matmul (matmul u (diagmat3 s)) (take 3 vh))
     = C nonsquare_camera None"
  "(case reflection_svd (C nonsquare_camera (Some reflection_pose)) of
      (u, s, vh) \<Rightarrow> matmul (matmul u (diagmat3 s)) (take 3 vh))
     = C nonsquare_camera (Some reflection_pose)"
  by (simp_all add: far_svd_def far_nearby_def affine_svd_def affine_matrix_def
      nonsquare_svd_def reflection_svd_def C_nonsquare C_reflection eye3_def matmul_def dot_def)

section \<open>Sign ambiguity of the decomposition (C5)\<close>

text \<open>
  C5: for a 3x4 matrix, with \<open>qr\<close> factorising as \<open>np.linalg.qr\<close> does, \<open>decomposeC\<close>
  raises \<open>RuntimeError\<close> when the determinant of the sign-correction matrix
  \<open>diag(sign(diag(K)))\<close> is not 1, and when it is 1 returns a camera whose intrinsic
  matrix has a positive diagonal. A matrix whose leading 3x3 block has a negative
  determinant, as one built from a reflection has, gives the determinant \<open>-1\<close>.
\<close>

theorem decomposeC_sign_ambiguity:
  assumes sh: "shape Cm = Some (3, 4)"
    and qr: "qr_contract qr (flipud_lr (transpose (leading3 Cm)))"
  shows "(det3 (sign_correction (fst (rq qr (leading3 Cm)))) \<noteq> 1
            \<longrightarrow> decomposeC svd qr Cm = Inl RuntimeError)
     \<and> (det3 (sign_correction (fst (rq qr (leading3 Cm)))) = 1
            \<longrightarrow> (\<exists>cam. decomposeC svd qr Cm = Inr cam
                   \<and> 0 < K cam ! 0 ! 0 \<and> 0 < K cam ! 1 ! 1 \<and> 0 < K cam ! 2 ! 2))
     \<and> (det3 (leading3 Cm) < 0
            \<longrightarrow> det3 (sign_correction (fst (rq qr (leading3 Cm)))) = - 1)"
proof -
  note oc = decomposeC_outcome[OF sh qr, of svd]
  from oc have d: "det3 (sign_correction (fst (rq qr (leading3 Cm)))) = sgn (det3 (leading3 Cm))"
    by blast
  have a: "det3 (sign_correction (fst (rq qr (leading3 Cm)))) \<noteq> 1
            \<longrightarrow> decomposeC svd qr Cm = Inl RuntimeError"
  proof
    assume "det3 (sign_correction (fst (rq qr (leading3 Cm)))) \<noteq> 1"
    then have "det3 (leading3 Cm) \<le> 0" unfolding d by (simp add: sgn_real_def split: if_splits)
    with oc show "decomposeC svd qr Cm = Inl RuntimeError" by blast
  qed
  have b: "det3 (sign_correction (fst (rq qr (leading3 Cm)))) = 1
            \<longrightarrow> (\<exists>cam. decomposeC svd qr Cm = Inr cam
                   \<and> 0 < K cam ! 0 ! 0 \<and> 0 < K cam ! 1 ! 1 \<and> 0 < K cam ! 2 ! 2)"
  proof
    assume "det3 (sign_correction (fst (rq qr (leading3 Cm)))) = 1"
    then have "0 < det3 (leading3 Cm)" unfolding d by (simp add: sgn_real_def split: if_splits)
    with oc obtain k0 k1 k2 k3 k4 k5 R1 where p: "0 < k0" "0 < k3" "0 < k5"
      and r: "decomposeC svd qr Cm
                = Inr (CentralCamera_init (k0 / k5) [k2 / k5, k4 / k5] [1, k3 / k5 / (k0 / k5)]
                        (SE3_Rt (transpose R1) (camera_centre svd Cm)))"
      by blast
    have "0 < k0 / k5" "0 < k3 / k5 / (k0 / k5)" using p by simp_all
    from K_diag_init[OF this] r
    show "\<exists>cam. decomposeC svd qr Cm = Inr cam
                   \<and> 0 < K cam ! 0 ! 0 \<and> 0 < K cam ! 1 ! 1 \<and> 0 < K cam ! 2 ! 2"
      by blast
  qed
  have c: "det3 (leading3 Cm) < 0
            \<longrightarrow> det3 (sign_correction (fst (rq qr (leading3 Cm)))) = - 1"
    unfolding d by (simp add: sgn_real_def)
  from a b c show ?thesis by blast
qed

theorem decomposeC_sign_ambiguity_witness:
  "det3 (leading3 (C nonsquare_camera (Some reflection_pose))) < 0
   \<and> decomposeC reflection_svd qr_of_upper (C nonsquare_camera (Some reflection_pose))
       = Inl RuntimeError
   \<and> det3 (sign_correction (fst (rq qr_of_upper (leading3 (C nonsquare_camera None))))) = 1
   \<and> (\<exists>cam. decomposeC nonsquare_svd qr_of_upper (C nonsquare_camera None) = Inr cam
         \<and> 0 < K cam ! 0 ! 0 \<and> 0 < K cam ! 1 ! 1 \<and> 0 < K cam ! 2 ! 2)"
proof -
  let ?Cr = "C nonsquare_camera (Some reflection_pose)"
  let ?Cn = "C nonsquare_camera None"
  have shr: "shape ?Cr = Some (3, 4)" by (simp add: C_reflection shape_def)
  have lr: "flipud_lr (transpose (leading3 ?Cr)) = [[- 1, 0, 0], [0, 2, 0], [0, 0, 1]]"
    by (simp add: C_reflection leading3_def flipud_lr_def)
  have qr: "qr_contract qr_of_upper (flipud_lr (transpose (leading3 ?Cr)))"
    unfolding lr by (rule qr_of_upper_contract)
  have dr: "det3 (leading3 ?Cr) < 0" by (simp add: C_reflection leading3_def)
  from decomposeC_sign_ambiguity[OF shr qr, of reflection_svd] dr
  have fail: "decomposeC reflection_svd qr_of_upper ?Cr = Inl RuntimeError" by auto
  have shn: "shape ?Cn = Some (3, 4)" by (simp add: C_nonsquare shape_def)
  have ln: "flipud_lr (transpose (leading3 ?Cn)) = [[1, 0, 0], [0, 2, 0], [0, 0, 1]]"
    by (simp add: C_nonsquare leading3_def flipud_lr_def)
  have qn: "qr_contract qr_of_upper (flipud_lr (transpose (leading3 ?Cn)))"
    unfolding ln by (rule qr_of_upper_contract)
  have dn: "det3 (sign_correction (fst (rq qr_of_upper (leading3 ?Cn)))) = 1"
    by (simp add: C_nonsquare leading3_def rq_def qr_of_upper_def flipud_lr_def eye3_def
        sign_correction_def)
  from decomposeC_sign_ambiguity[OF shn qn, of nonsquare_svd] dn
  have ok: "\<exists>cam. decomposeC nonsquare_svd qr_of_upper ?Cn = Inr cam
         \<and> 0 < K cam ! 0 ! 0 \<and> 0 < K cam ! 1 ! 1 \<and> 0 < K cam ! 2 ! 2" by blast
  from dr fail dn ok show ?thesis by blast
qed

section \<open>Camera at infinity (C4)\<close>

text \<open>
  C4, as stated: when the 4th component of the last right-singular vector is numerically
  zero, \<open>decomposeC\<close> fails instead of dividing by it. For the matrix of the camera at
  distance \<open>5e16\<close> the 4th component that \<open>np.linalg.svd\<close> returns is exactly zero;
  \<open>decomposeC\<close> divides by it, raises nothing, and returns a camera whose centre is
  \<open>[nan, nan, inf]\<close>.
\<close>

theorem decomposeC_far_camera_counterexample:
  "shape far_matrix = Some (3, 4)
   \<and> snd (snd (far_svd far_matrix)) ! 3 = [0, 0, 1, 0]
   \<and> qr_contract qr_of_upper (flipud_lr (transpose (leading3 far_matrix)))
   \<and> decomposeC far_svd qr_of_upper far_matrix
       = Inr (CentralCamera_init 1 [0, 0] [1, 1] (SE3_Rt eye3 [NaN, NaN, PInf]))"
proof -
  have sh: "shape far_matrix = Some (3, 4)" by (simp add: far_matrix_def shape_def)
  have z: "snd (snd (far_svd far_matrix)) ! 3 = [0, 0, 1, 0]" by (simp add: far_svd_def)
  have l: "flipud_lr (transpose (leading3 far_matrix)) = [[1, 0, 0], [0, 1, 0], [0, 0, 1]]"
    by (simp add: far_matrix_def leading3_def flipud_lr_def)
  have q: "qr_contract qr_of_upper (flipud_lr (transpose (leading3 far_matrix)))"
    unfolding l by (rule qr_of_upper_contract)
  have d: "decomposeC far_svd qr_of_upper far_matrix
       = Inr (CentralCamera_init 1 [0, 0] [1, 1] (SE3_Rt eye3 [NaN, NaN, PInf]))"
    by (simp add: decomposeC_def far_matrix_def far_svd_def shape_def rq_def
        qr_of_upper_def flipud_lr_def eye3_def sign_correction_def isclose_def matmul_def dot_def)
  from sh z q d show ?thesis by blast
qed

text \<open>
  C4, amended: \<open>decomposeC\<close> has no guard on the 4th component of the last
  right-singular vector and always divides by it. When that component is exactly zero,
  whatever else the 4x4 array of \<open>svd\<close> and the two 3x3 arrays of \<open>qr\<close> hold, the
  division raises nothing and gives \<open>inf\<close> or \<open>nan\<close> in every coordinate of the centre.
  Whether the call then fails is decided by the sign check alone, which looks at the
  leading 3x3 block only: \<open>RuntimeError\<close> if the signs of the diagonal of its factor
  \<open>K\<close> do not multiply to 1, and otherwise a camera is returned whose pose has that
  centre. With \<open>qr\<close> factorising exactly, the product of the signs is the sign of the
  determinant of the block; if moreover the vector is an exact unit null vector of the
  matrix, the block is singular and the call fails in the sign check.
\<close>

theorem decomposeC_camera_at_infinity:
  assumes sh: "shape Cm = Some (3, 4)"
    and vs: "shape (snd (snd (svd Cm))) = Some (4, 4)"
    and qs: "shape (fst (qr (flipud_lr (transpose (leading3 Cm))))) = Some (3, 3)"
      "shape (snd (qr (flipud_lr (transpose (leading3 Cm))))) = Some (3, 3)"
    and zero: "snd (snd (svd Cm)) ! 3 ! 3 = 0"
  shows "length (camera_centre svd Cm) = 3
     \<and> (\<forall>x \<in> set (camera_centre svd Cm). isinf x \<or> isnan x)
     \<and> (if isclose (det3 (sign_correction (fst (rq qr (leading3 Cm))))) 1
        then \<exists>cam. decomposeC svd qr Cm = Inr cam
               \<and> SE3_t (pose cam) = camera_centre svd Cm
        else decomposeC svd qr Cm = Inl RuntimeError)
     \<and> (qr_contract qr (flipud_lr (transpose (leading3 Cm))) \<longrightarrow>
          det3 (sign_correction (fst (rq qr (leading3 Cm)))) = sgn (det3 (leading3 Cm))
          \<and> (svd_contract svd Cm \<longrightarrow> decomposeC svd qr Cm = Inl RuntimeError))"
proof -
  obtain u s vh where sv: "svd Cm = (u, s, vh)" by (cases "svd Cm")
  from vs sv have vs': "shape vh = Some (4, 4)" by simp
  from shape44_row3(2)[OF vs'] obtain x y z w where v: "vh ! 3 = [x, y, z, w]"
    using len4 by blast
  from zero sv v have w: "w = 0" by simp
  have t: "map (\<lambda>r. r ! 3) (transpose vh) = [x, y, z, 0]"
    using shape44_row3(1)[OF vs'] v w by simp
  have cc: "camera_centre svd Cm = [fdiv (Fin x) (Fin 0), fdiv (Fin y) (Fin 0), fdiv (Fin z) (Fin 0)]"
    by (simp only: camera_centre_def sv Let_def prod.case t) simp
  have c1: "length (camera_centre svd Cm) = 3" unfolding cc by simp
  have c2: "\<forall>x \<in> set (camera_centre svd Cm). isinf x \<or> isnan x" unfolding cc by simp
  obtain Kq Rq where rqv: "rq qr (leading3 Cm) = (Kq, Rq)" by (cases "rq qr (leading3 Cm)")
  then have rqv': "rq qr (map (take 3) (take 3 Cm)) = (Kq, Rq)" by (simp add: leading3_def)
  have c3: "if isclose (det3 (sign_correction (fst (rq qr (leading3 Cm))))) 1
        then \<exists>cam. decomposeC svd qr Cm = Inr cam
               \<and> SE3_t (pose cam) = camera_centre svd Cm
        else decomposeC svd qr Cm = Inl RuntimeError"
    using sh
    by (simp add: decomposeC_def camera_centre_def sv rqv rqv' Let_def CentralCamera_init_def
        SE3_Rt_def)
  have c4: "qr_contract qr (flipud_lr (transpose (leading3 Cm))) \<longrightarrow>
          det3 (sign_correction (fst (rq qr (leading3 Cm)))) = sgn (det3 (leading3 Cm))
          \<and> (svd_contract svd Cm \<longrightarrow> decomposeC svd qr Cm = Inl RuntimeError)"
  proof
    assume qr: "qr_contract qr (flipud_lr (transpose (leading3 Cm)))"
    note out = decomposeC_outcome[OF sh qr, of svd]
    have "decomposeC svd qr Cm = Inl RuntimeError" if svd: "svd_contract svd Cm"
    proof -
      from svd sv have un: "dot (vh ! 3) (vh ! 3) = 1" and nl: "matvec Cm (vh ! 3) = [0, 0, 0]"
        by (simp_all add: svd_contract_def)
      from shape34[OF sh] obtain a b c t0 d e f t1 g h i t2
        where Cm: "Cm = [[a, b, c, t0], [d, e, f, t1], [g, h, i, t2]]" by blast
      have M: "leading3 Cm = [[a, b, c], [d, e, f], [g, h, i]]"
        by (simp add: Cm leading3_def)
      from nl have eqs: "a * x + b * y + c * z = 0" "d * x + e * y + f * z = 0"
          "g * x + h * y + i * z = 0"
        unfolding Cm v w by (simp_all add: matvec_def dot_def)
      from un have "x * x + y * y + z * z = 1" unfolding v w by (simp add: dot_def)
      then have nz: "x \<noteq> 0 \<or> y \<noteq> 0 \<or> z \<noteq> 0" by auto
      from det3_null_vector[OF eqs nz] have "det3 (leading3 Cm) \<le> 0" by (simp add: M)
      with out show ?thesis by blast
    qed
    with out show "det3 (sign_correction (fst (rq qr (leading3 Cm)))) = sgn (det3 (leading3 Cm))
          \<and> (svd_contract svd Cm \<longrightarrow> decomposeC svd qr Cm = Inl RuntimeError)"
      by blast
  qed
  from c1 c2 c3 c4 show ?thesis by blast
qed

theorem decomposeC_camera_at_infinity_witness:
  "svd_contract affine_svd affine_matrix
   \<and> qr_contract qr_of_upper (flipud_lr (transpose (leading3 affine_matrix)))
   \<and> det3 (sign_correction (fst (rq qr_of_upper (leading3 affine_matrix)))) = 0
   \<and> decomposeC affine_svd qr_of_upper affine_matrix = Inl RuntimeError
   \<and> camera_centre affine_svd affine_matrix = [NaN, NaN, NInf]"
proof -
  have sh: "shape affine_matrix = Some (3, 4)" by (simp add: affine_matrix_def shape_def)
  have l: "flipud_lr (transpose (leading3 affine_matrix)) = [[0, 0, 0], [0, 1, 0], [0, 0, 1]]"
    by (simp add: affine_matrix_def leading3_def flipud_lr_def)
  have q: "qr_contract qr_of_upper (flipud_lr (transpose (leading3 affine_matrix)))"
    unfolding l by (rule qr_of_upper_contract)
  have vs: "shape (snd (snd (affine_svd affine_matrix))) = Some (4, 4)"
    by (simp add: affine_svd_def shape_def)
  have z: "snd (snd (affine_svd affine_matrix)) ! 3 ! 3 = 0"
    by (simp add: affine_svd_def)
  have s: "svd_contract affine_svd affine_matrix"
    by (simp add: svd_contract_def affine_svd_def affine_matrix_def shape_def dot_def matvec_def)
  have d: "det3 (leading3 affine_matrix) = 0"
    by (simp add: affine_matrix_def leading3_def)
  have c: "camera_centre affine_svd affine_matrix = [NaN, NaN, NInf]"
    by (simp add: camera_centre_def affine_svd_def)
  have n: "\<not> isclose 0 1" by (simp add: isclose_def)
  have qs: "shape (fst (qr_of_upper (flipud_lr (transpose (leading3 affine_matrix))))) = Some (3, 3)"
    "shape (snd (qr_of_upper (flipud_lr (transpose (leading3 affine_matrix))))) = Some (3, 3)"
    unfolding l by (simp_all add: qr_of_upper_def eye3_def shape_def)
  from decomposeC_camera_at_infinity[of affine_matrix affine_svd qr_of_upper, OF sh vs qs z]
  have "(if isclose (det3 (sign_correction (fst (rq qr_of_upper (leading3 affine_matrix))))) 1
        then \<exists>cam. decomposeC affine_svd qr_of_upper affine_matrix = Inr cam
               \<and> SE3_t (pose cam) = camera_centre affine_svd affine_matrix
        else decomposeC affine_svd qr_of_upper affine_matrix = Inl RuntimeError)"
    and "det3 (sign_correction (fst (rq qr_of_upper (leading3 affine_matrix)))) = 0"
    using q d by simp_all
  with n q s c show ?thesis by simp
qed

section \<open>Round trip of the calibration (C1)\<close>

lemma decomposeC_roundtrip_K:
  assumes ok: "camera_ok cam"
    and svd: "svd_contract svd (C cam None)"
    and qr: "qr_contract qr (flipud_lr (transpose (leading3 (C cam None))))"
  shows "\<exists>cam'. decomposeC svd qr (C cam None) = Inr cam'
      \<and> pose cam' = \<lparr>SE3_R = SE3_R (pose cam), SE3_t = map Fin (SE3_t (pose cam))\<rparr>
      \<and> K cam' = [[fu cam / rhou cam, 0, u0 cam],
                   [0, (fu cam / rhou cam) / (fv cam / rhov cam / (fu cam / rhou cam)), v0 cam],
                   [0, 0, 1]]
      \<and> (K cam' = K cam \<longleftrightarrow> fu cam / rhou cam = fv cam / rhov cam)"
proof -
  define a where "a = fu cam / rhou cam"
  define b where "b = fv cam / rhov cam"
  from ok have pa: "0 < a" and pb: "0 < b" by (simp_all add: camera_ok_def a_def b_def)
  let ?c = "CentralCamera_init a [u0 cam, v0 cam] [1, b / a]
              (SE3_Rt (SE3_R (pose cam)) (map Fin (SE3_t (pose cam))))"
  have r: "decomposeC svd qr (C cam None) = Inr ?c"
    unfolding a_def b_def by (rule decomposeC_roundtrip[OF ok svd qr])
  have p: "pose ?c = \<lparr>SE3_R = SE3_R (pose cam), SE3_t = map Fin (SE3_t (pose cam))\<rparr>"
    by (simp add: CentralCamera_init_def SE3_Rt_def)
  have k: "K ?c = [[a, 0, u0 cam], [0, a / (b / a), v0 cam], [0, 0, 1]]"
    by (simp add: K_def CentralCamera_init_def)
  have kc: "K cam = [[a, 0, u0 cam], [0, b, v0 cam], [0, 0, 1]]"
    by (simp add: K_def a_def b_def)
  have "a / (b / a) = b \<longleftrightarrow> a = b"
  proof
    assume "a / (b / a) = b"
    then have "a * a = b * b" using pa pb by (simp add: field_simps)
    then have "a\<^sup>2 = b\<^sup>2" by (simp add: power2_eq_square)
    then show "a = b" using pa pb by (simp add: power2_eq_iff_nonneg)
  next
    assume "a = b"
    then show "a / (b / a) = b" using pa by simp
  qed
  then have e: "K ?c = K cam \<longleftrightarrow> a = b" unfolding k kc by simp
  from r p k e show ?thesis unfolding a_def b_def by blast
qed

text \<open>
  C1: for a camera with known \<open>K\<close> and pose, \<open>decomposeC\<close> of its matrix \<open>C()\<close> returns a
  camera with the same intrinsic matrix and the same pose. For the camera with
  \<open>K = diag(1, 2, 1)\<close> at \<open>(3/4, 0, 0)\<close> the pose comes back, and the intrinsic matrix
  comes back as \<open>diag(1, 1/2, 1)\<close>: the pixel sizes \<open>s = [1, K[1,1] / K[0,0]]\<close> make
  \<open>f / s[1]\<close> the inverse of the aspect ratio. By \<open>decomposeC_roundtrip_K\<close> the focal
  length in pixels \<open>K[0,0]\<close>, the principal point and the pose are recovered for every
  camera, and \<open>K[1,1]\<close> only when it equals \<open>K[0,0]\<close>.
\<close>

theorem decomposeC_roundtrip_nonsquare_pixels:
  "\<exists>cam. decomposeC nonsquare_svd qr_of_upper (C nonsquare_camera None) = Inr cam
     \<and> pose cam = \<lparr>SE3_R = eye3, SE3_t = [Fin (3 / 4), Fin 0, Fin 0]\<rparr>
     \<and> K cam = [[1, 0, 0], [0, 1 / 2, 0], [0, 0, 1]]
     \<and> K nonsquare_camera = [[1, 0, 0], [0, 2, 0], [0, 0, 1]]
     \<and> K cam \<noteq> K nonsquare_camera"
proof -
  from decomposeC_roundtrip[OF nonsquare_contracts]
  have "decomposeC nonsquare_svd qr_of_upper (C nonsquare_camera None)
     = Inr (CentralCamera_init 1 [0, 0] [1, 2] (SE3_Rt eye3 [Fin (3 / 4), Fin 0, Fin 0]))"
    by (simp add: nonsquare_camera_def)
  moreover have "K (CentralCamera_init 1 [0, 0] [1, 2] (SE3_Rt eye3 [Fin (3 / 4), Fin 0, Fin 0]))
      = [[1, 0, 0], [0, 1 / 2, 0], [0, 0, 1]]"
    by (simp add: K_def CentralCamera_init_def)
  moreover have "K nonsquare_camera = [[1, 0, 0], [0, 2, 0], [0, 0, 1]]"
    by (simp add: K_def nonsquare_camera_def)
  moreover have "pose (CentralCamera_init 1 [0, 0] [1, 2] (SE3_Rt eye3 [Fin (3 / 4), Fin 0, Fin 0]))
      = \<lparr>SE3_R = eye3, SE3_t = [Fin (3 / 4), Fin 0, Fin 0]\<rparr>"
    by (simp add: CentralCamera_init_def SE3_Rt_def)
  ultimately show ?thesis by simp
qed

end
